theory Spec2Isabelle
  imports Complex_Main "HOL-Library.Multiset" "HOL-Library.Sublist"
begin

section \<open>Video recomposition and export (src/lib/video-export.ts)\<close>

text \<open>
  The module inserts still images into a source video at given timestamps, driving
  FFmpeg.wasm. Two entry points build the same cut list in two ways:
  \<^verbatim>\<open>exportVideoWithFrames\<close> (one filter graph) and \<^verbatim>\<open>exportVideoSimple\<close>
  (one encode per segment, then a concat pass).

  Conventions of the embedding.
  \<^item> A JavaScript number that carries a time is a \<^typ>\<open>rat\<close> (seconds); NaN and the
    infinities are left out, and so is binary rounding. Pixel sizes are \<^typ>\<open>int\<close>.
  \<^item> An optional field is an \<^typ>\<open>'a option\<close>; \<^verbatim>\<open>undefined\<close> is \<open>None\<close>.
  \<^item> The engine is external: its replies are a parameter (\<open>engine\<close>), its calls are
    recorded in a trace together with whether they returned, and every awaited call
    may throw.
  \<^item> What a command does to the files of the engine is read off its arguments: it
    writes to its output file the movie made from its input files. The movie that an
    export reads back at the end is computed from the calls that returned.
  \<^item> Numbers printed into command lines (\<^verbatim>\<open>toFixed(3)\<close>, template strings) are kept
    as numbers inside structured commands; file names are the strings of the source.
  \<^item> Progress messages (the second argument of the callback) are left out; the
    percentage is kept.
  \<^item> The frames of the list are objects, so the guards \<^verbatim>\<open>if (!frame) continue\<close> never
    fire.
\<close>

subsection \<open>Data of the interface\<close>

record InsertFrame =
  timestamp :: rat
  imageData :: string
  duration :: "rat option"
  width :: "int option"
  height :: "int option"

record ExportConfig =
  videoUrl :: string
  frames :: "InsertFrame list"
  outputFileName :: "string option"
  imageDuration :: "rat option"
  videoWidth :: "int option"
  videoHeight :: "int option"
  videoDuration :: "rat option"

text \<open>
  \<^verbatim>\<open>const { x = d } = config\<close>: the default replaces \<^verbatim>\<open>undefined\<close> only.
\<close>

definition default_to :: "'a option \<Rightarrow> 'a \<Rightarrow> 'a" where
  "default_to x d = (case x of None \<Rightarrow> d | Some v \<Rightarrow> v)"

text \<open>
  \<^verbatim>\<open>x || d\<close> on an optional number: \<^verbatim>\<open>undefined\<close> and \<^verbatim>\<open>0\<close> are both falsy.
\<close>

definition js_or :: "'a::zero option \<Rightarrow> 'a \<Rightarrow> 'a" where
  "js_or x d = (case x of None \<Rightarrow> d | Some v \<Rightarrow> if v = 0 then d else v)"

text \<open>\<^verbatim>\<open>!x\<close> on an optional number.\<close>

definition js_not :: "'a::zero option \<Rightarrow> bool" where
  "js_not x = (case x of None \<Rightarrow> True | Some v \<Rightarrow> v = 0)"

text \<open>Decimal rendering of an index inside a template string.\<close>

function show_nat :: "nat \<Rightarrow> string" where
  "show_nat n =
     (if n < 10 then [''0123456789'' ! n]
      else show_nat (n div 10) @ [''0123456789'' ! (n mod 10)])"
  by pat_completeness auto
termination
  by (relation "measure id") auto

declare show_nat.simps [simp del]

definition img_name :: "nat \<Rightarrow> string" where
  "img_name i = ''img_'' @ show_nat i @ ''.jpg''"

definition frame_name :: "nat \<Rightarrow> string" where
  "frame_name i = ''frame_'' @ show_nat i @ ''.jpg''"

definition seg_v_name :: "nat \<Rightarrow> string" where
  "seg_v_name i = ''seg_v'' @ show_nat i @ ''.mp4''"

definition seg_img_name :: "nat \<Rightarrow> string" where
  "seg_img_name i = ''seg_img'' @ show_nat i @ ''.mp4''"

text \<open>
  \<^verbatim>\<open>base64ToUint8Array\<close> (lines 83-91) removes a leading
  \<^verbatim>\<open>data:image/<word>;base64,\<close> and hands the rest to \<^verbatim>\<open>atob\<close>, which throws on text
  that is not base64. \<^verbatim>\<open>\w\<close> is a letter, a digit or an underscore, and \<^verbatim>\<open>\w+\<close> ends at
  the first other character, so the match is decided by the longest run of such
  characters.
\<close>

definition word_char :: "char \<Rightarrow> bool" where
  "word_char c \<longleftrightarrow>
     c \<in> set ''ABCDEFGHIJKLMNOPQRSTUVWXYZabcdefghijklmnopqrstuvwxyz0123456789_''"

definition strip_data_url :: "string \<Rightarrow> string" where
  "strip_data_url s =
     (if prefix ''data:image/'' s
      then let rest = drop 11 s; tail = dropWhile word_char rest
           in if takeWhile word_char rest \<noteq> [] \<and> prefix '';base64,'' tail
              then drop 8 tail else s
      else s)"

text \<open>
  \<^verbatim>\<open>atob\<close> is a built-in of the platform. It accepts its argument as the HTML standard's
  forgiving-base64 decode does: ASCII whitespace is removed; if the length is then a
  multiple of 4, one or two trailing \<^verbatim>\<open>=\<close> are removed; the text is refused if its
  length is then 1 modulo 4 or if it holds a character outside the base64 alphabet.
\<close>

definition ascii_whitespace :: "char \<Rightarrow> bool" where
  "ascii_whitespace c \<longleftrightarrow> c \<in> set [CHR 0x09, CHR 0x0A, CHR 0x0C, CHR 0x0D, CHR 0x20]"

definition base64_char :: "char \<Rightarrow> bool" where
  "base64_char c \<longleftrightarrow>
     c \<in> set ''ABCDEFGHIJKLMNOPQRSTUVWXYZabcdefghijklmnopqrstuvwxyz0123456789+/''"

definition strip_padding :: "string \<Rightarrow> string" where
  "strip_padding d =
     (if length d mod 4 = 0
      then if suffix ''=='' d then take (length d - 2) d
           else if suffix ''='' d then take (length d - 1) d
           else d
      else d)"

definition atob_ok :: "string \<Rightarrow> bool" where
  "atob_ok s =
     (let d = strip_padding (filter (\<lambda>c. \<not> ascii_whitespace c) s)
      in length d mod 4 \<noteq> 1 \<and> list_all base64_char d)"

text \<open>Whether \<^verbatim>\<open>base64ToUint8Array\<close> returns on an \<^verbatim>\<open>imageData\<close>.\<close>

definition decodes :: "string \<Rightarrow> bool" where
  "decodes s = atob_ok (strip_data_url s)"

subsection \<open>Engine commands\<close>

text \<open>Streams named in the filter graph: \<^verbatim>\<open>[v k][a k]\<close>, \<^verbatim>\<open>[vimg i][silence i]\<close>,
  \<^verbatim>\<open>[vfinal][afinal]\<close>.\<close>

datatype label = SrcL nat | ImgL nat | FinalL

text \<open>
  One entry of \<^verbatim>\<open>filterParts\<close>:
  \<^item> \<open>VTrim s e l\<close> is \<^verbatim>\<open>[0:v]trim=start=s:end=e,setpts=PTS-STARTPTS[l]\<close>, without
    \<^verbatim>\<open>:end\<close> when \<open>e\<close> is \<open>None\<close>; \<open>ATrim\<close> is the same on \<^verbatim>\<open>[0:a]\<close>;
  \<^item> \<open>Scale i tw th\<close> is \<^verbatim>\<open>[i+1:v]scale=tw:th:...,pad=...,setsar=1,fps=30,...[img i]\<close>: it
    reads the input number \<open>i + 1\<close>;
  \<^item> \<open>Silence i d\<close> is \<^verbatim>\<open>anullsrc=...,atrim=duration=d[silence i]\<close>;
  \<^item> \<open>Loop i n d\<close> is \<^verbatim>\<open>[img i]loop=loop=n:size=1:start=0,trim=duration=d,...[vimg i]\<close>;
  \<^item> \<open>ConcatF ls n\<close> is the streams \<open>ls\<close> followed by \<^verbatim>\<open>concat=n=n:v=1:a=1[outv][outa]\<close>.
\<close>

datatype filter_part =
    VTrim rat "rat option" label
  | ATrim rat "rat option" label
  | Scale nat int int
  | Silence nat rat
  | Loop nat int rat
  | ConcatF "label list" nat

text \<open>
  The argument lists given to \<^verbatim>\<open>ff.exec\<close>:
  \<^item> \<open>Probe\<close> is \<^verbatim>\<open>-i input.mp4 -f null -\<close>;
  \<^item> \<open>CutSegment ss t name\<close> is \<^verbatim>\<open>-i input.mp4 -ss ss -t t ... -y name\<close>;
  \<^item> \<open>ImageSegment img t tw th name\<close> is
    \<^verbatim>\<open>-loop 1 -i img -f lavfi -i anullsrc=... -t t -vf scale=tw:th:...,pad=... -y name\<close>;
  \<^item> \<open>FinalSegment ss t name\<close> is \<^verbatim>\<open>-i input.mp4 -ss ss ... -y name\<close>, with \<^verbatim>\<open>-t t\<close>
    after \<^verbatim>\<open>-ss\<close> when \<open>t\<close> is given;
  \<^item> \<open>ConcatCmd listing name\<close> is \<^verbatim>\<open>-f concat -safe 0 -i listing ... -y name\<close>;
  \<^item> \<open>FilterComplex inputs parts name\<close> is \<^verbatim>\<open>-i\<close> for each of \<open>inputs\<close> (with
    \<^verbatim>\<open>-loop 1\<close> before each image), \<^verbatim>\<open>-filter_complex\<close> with \<open>parts\<close> joined by
    semicolons, \<^verbatim>\<open>-map [outv] -map [outa] ... name\<close>.
\<close>

datatype command =
    Probe
  | CutSegment rat rat string
  | ImageSegment string rat int int string
  | FinalSegment rat "rat option" string
  | ConcatCmd string string
  | FilterComplex "string list" "filter_part list" string

text \<open>What is written into a file of the engine: the video fetched from a URL, the bytes
  decoded from a base64 text, or the concat listing.\<close>

datatype payload = VideoData string | ImageBytes string | ConcatList "string list"

datatype engine_op =
    Load
  | FetchFile string
  | WriteFile string payload
  | Exec command
  | ReadFile string
  | DeleteFile string

subsection \<open>The world: module state, engine trace, progress callbacks\<close>

datatype error = NoFrames | LoadFailed | ExportFailed

datatype origin = Stage | Engine

text \<open>
  \<open>ffmpegLoaded\<close> is the module flag; \<open>listener\<close> is the \<^verbatim>\<open>onProgress\<close> captured by the
  \<^verbatim>\<open>progress\<close> handler of the current FFmpeg instance (callbacks are told apart by a
  number). \<open>trace\<close> lists the engine calls issued, each with whether it returned
  (\<open>True\<close>) or threw (\<open>False\<close>); \<open>delivered\<close> lists the callback invocations, \<open>console\<close>
  the \<^verbatim>\<open>console.error\<close> calls.
\<close>

record world =
  ffmpegLoaded :: bool
  listener :: "nat option"
  trace :: "(engine_op \<times> bool) list"
  delivered :: "(nat \<times> origin \<times> int) list"
  console :: "error list"

text \<open>What the engine answers to its \<open>n\<close>-th call: whether it throws, and the progress
  fractions it emits meanwhile.\<close>

record reply =
  throws :: bool
  events :: "rat list"

type_synonym engine = "nat \<Rightarrow> reply"

text \<open>\<^verbatim>\<open>onProgress?.(p, msg)\<close>\<close>

definition report :: "nat option \<Rightarrow> int \<Rightarrow> world \<Rightarrow> world" where
  "report onProgress p w =
     (case onProgress of None \<Rightarrow> w
      | Some c \<Rightarrow> w\<lparr>delivered := delivered w @ [(c, Stage, p)]\<rparr>)"

text \<open>\<^verbatim>\<open>Math.round(progress * 100)\<close>\<close>

definition round100 :: "rat \<Rightarrow> int" where
  "round100 x = \<lfloor>x * 100 + 1 / 2\<rfloor>"

text \<open>The \<^verbatim>\<open>progress\<close> handler installed by \<^verbatim>\<open>initFFmpeg\<close>; the engine emits progress
  while it executes a command.\<close>

definition on_progress :: "engine_op \<Rightarrow> rat list \<Rightarrow> world \<Rightarrow> world" where
  "on_progress op es w =
     (case op of
        Exec c \<Rightarrow>
          (case listener w of None \<Rightarrow> w
           | Some l \<Rightarrow> w\<lparr>delivered := delivered w @ map (\<lambda>x. (l, Engine, round100 x)) es\<rparr>)
      | _ \<Rightarrow> w)"

text \<open>One awaited engine call; the flag tells whether it returned.\<close>

definition call :: "engine \<Rightarrow> engine_op \<Rightarrow> world \<Rightarrow> bool \<times> world" where
  "call eng op w =
     (let r = eng (length (trace w))
      in (\<not> throws r,
          on_progress op (events r) (w\<lparr>trace := trace w @ [(op, \<not> throws r)]\<rparr>)))"

definition initFFmpeg :: "engine \<Rightarrow> nat option \<Rightarrow> world \<Rightarrow> (error + unit) \<times> world" where
  "initFFmpeg eng onProgress w =
     (if ffmpegLoaded w then (Inr (), w)
      else
        let w1 = report onProgress 0 w;
            w2 = w1\<lparr>listener := onProgress\<rparr>;
            (ok, w3) = call eng Load w2
        in if ok then (Inr (), report onProgress 10 (w3\<lparr>ffmpegLoaded := True\<rparr>))
           else (Inl LoadFailed, w3\<lparr>console := console w3 @ [LoadFailed]\<rparr>))"

text \<open>
  The body of a \<^verbatim>\<open>try\<close> block is a list of steps in program order: a progress report,
  an awaited call (a throw leaves the block), a call inside its own
  \<^verbatim>\<open>try { } catch { }\<close> (a throw is swallowed), or a throw of the code itself (an image
  that does not decode). No branch of either export depends on what the engine
  returns, only on whether a call throws, so the steps can be listed before they run;
  \<open>run\<close> issues them one at a time and stops at the first throw.
\<close>

datatype step = Report int | Call engine_op | Quiet engine_op | Throw

fun run :: "engine \<Rightarrow> nat option \<Rightarrow> step list \<Rightarrow> world \<Rightarrow> bool \<times> world" where
  "run eng onProgress [] w = (True, w)"
| "run eng onProgress (Report p # ss) w = run eng onProgress ss (report onProgress p w)"
| "run eng onProgress (Call op # ss) w =
     (let (ok, w') = call eng op w
      in if ok then run eng onProgress ss w' else (False, w'))"
| "run eng onProgress (Quiet op # ss) w = run eng onProgress ss (snd (call eng op w))"
| "run eng onProgress (Throw # ss) w = (False, w)"

subsection \<open>Shared preamble of both exports\<close>

text \<open>\<^verbatim>\<open>[...frames].sort((a, b) => a.timestamp - b.timestamp)\<close>: the built-in sort is
  stable; it is the stable insertion sort of the library here.\<close>

definition sortedFrames :: "ExportConfig \<Rightarrow> InsertFrame list" where
  "sortedFrames config = sort_key timestamp (frames config)"

definition targetWidth :: "ExportConfig \<Rightarrow> int" where
  "targetWidth config = js_or (videoWidth config) 1280"

definition targetHeight :: "ExportConfig \<Rightarrow> int" where
  "targetHeight config = js_or (videoHeight config) 720"

definition out_name :: "ExportConfig \<Rightarrow> string" where
  "out_name config = default_to (outputFileName config) ''itgen_video.mp4''"

text \<open>\<^verbatim>\<open>frame.duration || imageDuration\<close>, with \<^verbatim>\<open>imageDuration = 2\<close> by default.\<close>

definition frameDuration :: "ExportConfig \<Rightarrow> InsertFrame \<Rightarrow> rat" where
  "frameDuration config frame = js_or (duration frame) (default_to (imageDuration config) 2)"

subsection \<open>exportVideoSimple\<close>

text \<open>
  The segment loop (lines 334-380). It returns the \<^verbatim>\<open>exec\<close> commands in the order they
  are issued and the final \<^verbatim>\<open>lastCutTime\<close>; \<^verbatim>\<open>segments\<close> is the list of their output
  names, since each \<^verbatim>\<open>exec\<close> is followed by the \<^verbatim>\<open>push\<close> of its output.
\<close>

fun segment_loop :: "ExportConfig \<Rightarrow> nat \<Rightarrow> rat \<Rightarrow> InsertFrame list \<Rightarrow> command list \<times> rat" where
  "segment_loop config i lastCutTime [] = ([], lastCutTime)"
| "segment_loop config i lastCutTime (frame # rest) =
     (let frameTime = timestamp frame;
          cut = (if frameTime > lastCutTime
                 then [CutSegment lastCutTime (frameTime - lastCutTime) (seg_v_name i)]
                 else []);
          img = ImageSegment (img_name i) (frameDuration config frame)
                  (targetWidth config) (targetHeight config) (seg_img_name i);
          (more, final) = segment_loop config (Suc i) frameTime rest
      in (cut @ img # more, final))"

text \<open>The trailing segment (lines 382-402).\<close>

definition final_segment :: "ExportConfig \<Rightarrow> rat \<Rightarrow> command list" where
  "final_segment config lastCutTime =
     (if js_not (videoDuration config) \<or> lastCutTime < the (videoDuration config) - 1 / 1000
      then [FinalSegment lastCutTime
              (if js_not (videoDuration config) then None
               else Some (max (the (videoDuration config) - lastCutTime) 0))
              ''seg_final.mp4'']
      else [])"

definition simple_commands :: "ExportConfig \<Rightarrow> command list" where
  "simple_commands config =
     (let (cmds, lastCutTime) = segment_loop config 0 0 (sortedFrames config)
      in cmds @ final_segment config lastCutTime)"

fun output_of :: "command \<Rightarrow> string list" where
  "output_of Probe = []"
| "output_of (CutSegment ss t name) = [name]"
| "output_of (ImageSegment img t tw th name) = [name]"
| "output_of (FinalSegment ss t name) = [name]"
| "output_of (ConcatCmd listing name) = [name]"
| "output_of (FilterComplex inputs parts name) = [name]"

definition segments :: "ExportConfig \<Rightarrow> string list" where
  "segments config = concat (map output_of (simple_commands config))"

text \<open>The loop that decodes and writes the images (lines 316-321, and 144-149 in
  \<^verbatim>\<open>exportVideoWithFrames\<close>): \<^verbatim>\<open>base64ToUint8Array\<close> comes first and may throw.\<close>

fun write_images :: "(nat \<Rightarrow> string) \<Rightarrow> nat \<Rightarrow> InsertFrame list \<Rightarrow> step list" where
  "write_images name i [] = []"
| "write_images name i (frame # rest) =
     (if decodes (imageData frame)
      then Call (WriteFile (name i) (ImageBytes (strip_data_url (imageData frame))))
      else Throw)
     # write_images name (Suc i) rest"

definition delete_images :: "(nat \<Rightarrow> string) \<Rightarrow> nat \<Rightarrow> step list" where
  "delete_images name n = map (\<lambda>i. Call (DeleteFile (name i))) [0..<n]"

text \<open>The \<^verbatim>\<open>try\<close> block of \<^verbatim>\<open>exportVideoSimple\<close> (lines 305-447).\<close>

definition simple_steps :: "ExportConfig \<Rightarrow> step list" where
  "simple_steps config =
     [Report 15,
      Call (FetchFile (videoUrl config)),
      Call (WriteFile ''input.mp4'' (VideoData (videoUrl config))),
      Report 25,
      Call (Exec Probe),
      Report 30]
     @ write_images img_name 0 (sortedFrames config)
     @ [Report 40]
     @ map (\<lambda>c. Call (Exec c)) (simple_commands config)
     @ [Report 70,
        Call (WriteFile ''concat.txt'' (ConcatList (segments config))),
        Call (Exec (ConcatCmd ''concat.txt'' (out_name config))),
        Report 90,
        Call (ReadFile (out_name config)),
        Call (DeleteFile ''input.mp4''),
        Call (DeleteFile ''concat.txt'')]
     @ delete_images img_name (length (sortedFrames config))
     @ map (\<lambda>s. Quiet (DeleteFile s)) (segments config)
     @ [Call (DeleteFile (out_name config)),
        Report 100]"

text \<open>The value returned on success: the bytes read from the named engine file.\<close>

datatype blob = Blob string

definition exportVideoSimple ::
  "engine \<Rightarrow> ExportConfig \<Rightarrow> nat option \<Rightarrow> world \<Rightarrow> (error + blob) \<times> world" where
  "exportVideoSimple eng config onProgress w =
     (if frames config = [] then (Inl NoFrames, w)
      else
        let w1 = report onProgress 0 w
        in case initFFmpeg eng onProgress w1 of
             (Inl e, w2) \<Rightarrow> (Inl e, w2)
           | (Inr u, w2) \<Rightarrow>
               (let (ok, w3) = run eng onProgress (simple_steps config) w2
                in if ok then (Inr (Blob (out_name config)), w3)
                   else (Inl ExportFailed, w3\<lparr>console := console w3 @ [ExportFailed]\<rparr>)))"

subsection \<open>exportVideoWithFrames\<close>

text \<open>
  The filter loop (lines 165-208): \<^verbatim>\<open>filterParts\<close>, \<^verbatim>\<open>concatInputs\<close>, \<^verbatim>\<open>lastTime\<close> and
  \<^verbatim>\<open>streamIndex\<close> are threaded through.
\<close>

fun filter_loop ::
  "ExportConfig \<Rightarrow> nat \<Rightarrow> rat \<Rightarrow> nat \<Rightarrow> InsertFrame list \<Rightarrow>
     filter_part list \<times> label list \<times> rat \<times> nat" where
  "filter_loop config i lastTime streamIndex [] = ([], [], lastTime, streamIndex)"
| "filter_loop config i lastTime streamIndex (frame # rest) =
     (let frameTime = timestamp frame;
          d = frameDuration config frame;
          src = frameTime > lastTime;
          parts1 = (if src
                    then [VTrim lastTime (Some frameTime) (SrcL streamIndex),
                          ATrim lastTime (Some frameTime) (SrcL streamIndex)]
                    else []);
          inputs1 = (if src then [SrcL streamIndex] else []);
          streamIndex1 = (if src then Suc streamIndex else streamIndex);
          parts2 = [Scale i (targetWidth config) (targetHeight config),
                    Silence i d,
                    Loop i \<lceil>d * 30\<rceil> d];
          (parts, inputs, final, streamIndex2) =
             filter_loop config (Suc i) frameTime (Suc streamIndex1) rest
      in (parts1 @ parts2 @ parts, inputs1 @ ImgL i # inputs, final, streamIndex2))"

text \<open>Lines 165-224: the loop, the unconditional trailing trim, the concat filter.\<close>

definition concatInputs :: "ExportConfig \<Rightarrow> label list" where
  "concatInputs config =
     (let (parts, inputs, lastTime, streamIndex) = filter_loop config 0 0 0 (sortedFrames config)
      in inputs @ [FinalL])"

definition filterParts :: "ExportConfig \<Rightarrow> filter_part list" where
  "filterParts config =
     (let (parts, inputs, lastTime, streamIndex) = filter_loop config 0 0 0 (sortedFrames config)
      in parts
         @ [VTrim lastTime None FinalL, ATrim lastTime None FinalL]
         @ [ConcatF (concatInputs config) (length (concatInputs config))])"

definition inputArgs :: "ExportConfig \<Rightarrow> string list" where
  "inputArgs config = ''input.mp4'' # map frame_name [0..<length (sortedFrames config)]"

text \<open>The \<^verbatim>\<open>try\<close> block of \<^verbatim>\<open>exportVideoWithFrames\<close> (lines 135-266).\<close>

definition frames_steps :: "ExportConfig \<Rightarrow> step list" where
  "frames_steps config =
     [Report 10,
      Call (FetchFile (videoUrl config)),
      Call (WriteFile ''input.mp4'' (VideoData (videoUrl config))),
      Report 20]
     @ write_images frame_name 0 (sortedFrames config)
     @ [Report 30,
        Call (Exec Probe),
        Report 40,
        Report 50,
        Call (Exec (FilterComplex (inputArgs config) (filterParts config) (out_name config))),
        Report 90,
        Call (ReadFile (out_name config)),
        Call (DeleteFile ''input.mp4'')]
     @ delete_images frame_name (length (sortedFrames config))
     @ [Call (DeleteFile (out_name config)),
        Report 100]"

definition exportVideoWithFrames ::
  "engine \<Rightarrow> ExportConfig \<Rightarrow> nat option \<Rightarrow> world \<Rightarrow> (error + blob) \<times> world" where
  "exportVideoWithFrames eng config onProgress w =
     (if frames config = [] then (Inl NoFrames, w)
      else
        let w1 = report onProgress 0 w
        in case initFFmpeg eng onProgress w1 of
             (Inl e, w2) \<Rightarrow> (Inl e, w2)
           | (Inr u, w2) \<Rightarrow>
               (let (ok, w3) = run eng onProgress (frames_steps config) w2
                in if ok then (Inr (Blob (out_name config)), w3)
                   else (Inl ExportFailed, w3\<lparr>console := console w3 @ [ExportFailed]\<rparr>)))"

subsection \<open>The cut list read off the commands\<close>

text \<open>
  A segment of the edit decision list: a cut of the source from \<open>start\<close> to an end
  (\<open>None\<close>: to the end of the source, resolved by the engine), or a still held for a
  duration at a target size.
\<close>

datatype segment =
    SourceSegment rat "rat option"
  | InsertSegment rat int int

text \<open>\<^verbatim>\<open>-ss s -t d\<close> cuts from \<open>s\<close> to \<open>s + d\<close>; without \<^verbatim>\<open>-t\<close>, to the end.\<close>

fun segment_of :: "command \<Rightarrow> segment list" where
  "segment_of (CutSegment ss t name) = [SourceSegment ss (Some (ss + t))]"
| "segment_of (ImageSegment img t tw th name) = [InsertSegment t tw th]"
| "segment_of (FinalSegment ss None name) = [SourceSegment ss None]"
| "segment_of (FinalSegment ss (Some t) name) = [SourceSegment ss (Some (ss + t))]"
| "segment_of c = []"

definition simple_edl :: "ExportConfig \<Rightarrow> segment list" where
  "simple_edl config = concat (map segment_of (simple_commands config))"

text \<open>
  In the filter graph a concat input is resolved through the filter that defines its
  stream: a trim for a source stream, the \<^verbatim>\<open>scale\<close> and \<^verbatim>\<open>loop\<close> filters of image \<open>i\<close>
  for an image stream.
\<close>

fun trim_of :: "label \<Rightarrow> filter_part list \<Rightarrow> segment list" where
  "trim_of l [] = []"
| "trim_of l (VTrim s e l' # ps) = (if l = l' then [SourceSegment s e] else trim_of l ps)"
| "trim_of l (p # ps) = trim_of l ps"

fun scale_of :: "nat \<Rightarrow> filter_part list \<Rightarrow> (int \<times> int) list" where
  "scale_of i [] = []"
| "scale_of i (Scale j tw th # ps) = (if i = j then [(tw, th)] else scale_of i ps)"
| "scale_of i (p # ps) = scale_of i ps"

fun loop_of :: "nat \<Rightarrow> filter_part list \<Rightarrow> rat list" where
  "loop_of i [] = []"
| "loop_of i (Loop j n d # ps) = (if i = j then [d] else loop_of i ps)"
| "loop_of i (p # ps) = loop_of i ps"

fun stream_segment :: "filter_part list \<Rightarrow> label \<Rightarrow> segment list" where
  "stream_segment ps (ImgL i) =
     [InsertSegment d tw th. d \<leftarrow> loop_of i ps, (tw, th) \<leftarrow> scale_of i ps]"
| "stream_segment ps l = trim_of l ps"

definition frames_edl :: "ExportConfig \<Rightarrow> segment list" where
  "frames_edl config = concat (map (stream_segment (filterParts config)) (concatInputs config))"



subsection \<open>Auxiliary notions for the properties\<close>

fun is_insert :: "segment \<Rightarrow> bool" where
  "is_insert (InsertSegment d tw th) = True"
| "is_insert (SourceSegment s e) = False"

text \<open>The cut list that one pass of either loop describes, from cursor \<open>l\<close>, and the
  cursor after the pass. Both are proof devices; \<open>segment_loop_edl\<close> and
  \<open>filter_loop_edl\<close> below relate them to the loops of the source.\<close>

fun cut_list :: "ExportConfig \<Rightarrow> rat \<Rightarrow> InsertFrame list \<Rightarrow> segment list" where
  "cut_list config l [] = []"
| "cut_list config l (f # fs) =
     (if timestamp f > l then [SourceSegment l (Some (timestamp f))] else [])
     @ InsertSegment (frameDuration config f) (targetWidth config) (targetHeight config)
       # cut_list config (timestamp f) fs"

definition cursor :: "rat \<Rightarrow> InsertFrame list \<Rightarrow> rat" where
  "cursor l fs = (if fs = [] then l else timestamp (last fs))"

text \<open>No stream of index \<open>s\<close> or more, and no image of index \<open>i\<close> or more, is defined in
  the filter parts \<open>ps\<close>.\<close>

definition fresh :: "nat \<Rightarrow> nat \<Rightarrow> filter_part list \<Rightarrow> bool" where
  "fresh i s ps \<longleftrightarrow>
     (\<forall>k\<ge>s. trim_of (SrcL k) ps = []) \<and> (\<forall>j\<ge>i. scale_of j ps = [] \<and> loop_of j ps = [])"

text \<open>An engine that never throws and emits no progress, and the state of a freshly
  loaded page.\<close>

definition quiet_engine :: engine where
  "quiet_engine n = \<lparr>throws = False, events = []\<rparr>"

definition fresh_world :: world where
  "fresh_world =
     \<lparr>ffmpegLoaded = False, listener = None, trace = [], delivered = [], console = []\<rparr>"

definition base_config :: ExportConfig where
  "base_config =
     \<lparr>videoUrl = ''blob:video'', frames = [], outputFileName = None, imageDuration = None,
      videoWidth = None, videoHeight = None, videoDuration = None\<rparr>"



subsection \<open>Reading a run: engine calls, staged and released files, progress\<close>

fun op_of :: "step \<Rightarrow> engine_op list" where
  "op_of (Call op) = [op]"
| "op_of (Quiet op) = [op]"
| "op_of s = []"

definition ops_of :: "step list \<Rightarrow> engine_op list" where
  "ops_of ss = concat (map op_of ss)"

fun quiet_of :: "step \<Rightarrow> engine_op list" where
  "quiet_of (Quiet op) = [op]"
| "quiet_of s = []"

definition quiet_ops :: "step list \<Rightarrow> engine_op list" where
  "quiet_ops ss = concat (map quiet_of ss)"

fun report_of :: "step \<Rightarrow> int list" where
  "report_of (Report p) = [p]"
| "report_of s = []"

definition reports :: "step list \<Rightarrow> int list" where
  "reports ss = concat (map report_of ss)"

text \<open>A trace in which every call returned.\<close>

definition returned :: "engine_op list \<Rightarrow> (engine_op \<times> bool) list" where
  "returned ops = map (\<lambda>op. (op, True)) ops"

text \<open>
  A file comes into the engine's storage by a \<^verbatim>\<open>writeFile\<close> that returned or as the
  output of a command that returned. A \<^verbatim>\<open>deleteFile\<close> that returned has released its
  file; one that threw has not. \<open>attempted\<close> lists both.
\<close>

fun staged_by :: "engine_op \<times> bool \<Rightarrow> string list" where
  "staged_by (WriteFile name data, ok) = (if ok then [name] else [])"
| "staged_by (Exec c, ok) = (if ok then output_of c else [])"
| "staged_by other = []"

fun released_by :: "engine_op \<times> bool \<Rightarrow> string list" where
  "released_by (DeleteFile name, ok) = (if ok then [name] else [])"
| "released_by other = []"

fun unreleased_by :: "engine_op \<times> bool \<Rightarrow> string list" where
  "unreleased_by (DeleteFile name, ok) = (if ok then [] else [name])"
| "unreleased_by other = []"

fun attempted_by :: "engine_op \<times> bool \<Rightarrow> string list" where
  "attempted_by (DeleteFile name, ok) = [name]"
| "attempted_by other = []"

definition staged :: "(engine_op \<times> bool) list \<Rightarrow> string list" where
  "staged tr = concat (map staged_by tr)"

definition released :: "(engine_op \<times> bool) list \<Rightarrow> string list" where
  "released tr = concat (map released_by tr)"

definition unreleased :: "(engine_op \<times> bool) list \<Rightarrow> string list" where
  "unreleased tr = concat (map unreleased_by tr)"

definition attempted :: "(engine_op \<times> bool) list \<Rightarrow> string list" where
  "attempted tr = concat (map attempted_by tr)"

fun is_delete :: "engine_op \<Rightarrow> bool" where
  "is_delete (DeleteFile name) = True"
| "is_delete op = False"

text \<open>What one call of an export added to the trace and to the callback log.\<close>

definition new_ops :: "world \<Rightarrow> world \<Rightarrow> (engine_op \<times> bool) list" where
  "new_ops w w' = drop (length (trace w)) (trace w')"

definition new_delivered :: "world \<Rightarrow> world \<Rightarrow> (nat \<times> origin \<times> int) list" where
  "new_delivered w w' = drop (length (delivered w)) (delivered w')"

text \<open>The percentages reported by the export itself, and all percentages that reach
  callback \<open>c\<close>.\<close>

definition stage_percents :: "(nat \<times> origin \<times> int) list \<Rightarrow> int list" where
  "stage_percents es = map (\<lambda>e. snd (snd e)) (filter (\<lambda>e. fst (snd e) = Stage) es)"

definition percents_to :: "nat \<Rightarrow> (nat \<times> origin \<times> int) list \<Rightarrow> int list" where
  "percents_to c es = map (\<lambda>e. snd (snd e)) (filter (\<lambda>e. fst e = c) es)"

text \<open>
  \<open>script\<close> computes what \<open>run\<close> does to the trace and to the callback log without
  carrying the world along; \<open>run_script\<close> below proves the two equal. It serves to
  evaluate runs on concrete inputs.
\<close>

definition stage_entry :: "nat option \<Rightarrow> int \<Rightarrow> (nat \<times> origin \<times> int) list" where
  "stage_entry cb p = (case cb of None \<Rightarrow> [] | Some c \<Rightarrow> [(c, Stage, p)])"

definition engine_entries ::
  "nat option \<Rightarrow> engine_op \<Rightarrow> rat list \<Rightarrow> (nat \<times> origin \<times> int) list" where
  "engine_entries l op es =
     (case op of
        Exec c \<Rightarrow> (case l of None \<Rightarrow> [] | Some k \<Rightarrow> map (\<lambda>x. (k, Engine, round100 x)) es)
      | _ \<Rightarrow> [])"

fun script ::
  "engine \<Rightarrow> nat option \<Rightarrow> nat option \<Rightarrow> nat \<Rightarrow> step list \<Rightarrow>
     bool \<times> (engine_op \<times> bool) list \<times> (nat \<times> origin \<times> int) list" where
  "script eng cb l n [] = (True, [], [])"
| "script eng cb l n (Report p # ss) =
     (case script eng cb l n ss of (ok, ops, es) \<Rightarrow> (ok, ops, stage_entry cb p @ es))"
| "script eng cb l n (Call op # ss) =
     (if throws (eng n) then (False, [(op, False)], engine_entries l op (events (eng n)))
      else case script eng cb l (Suc n) ss of
             (ok, ops, es) \<Rightarrow> (ok, (op, True) # ops, engine_entries l op (events (eng n)) @ es))"
| "script eng cb l n (Quiet op # ss) =
     (case script eng cb l (Suc n) ss of
        (ok, ops, es) \<Rightarrow>
          (ok, (op, \<not> throws (eng n)) # ops, engine_entries l op (events (eng n)) @ es))"
| "script eng cb l n (Throw # ss) = (False, [], [])"

text \<open>All images of a configuration decode.\<close>

definition decodable :: "ExportConfig \<Rightarrow> bool" where
  "decodable config = list_all (\<lambda>f. decodes (imageData f)) (frames config)"

text \<open>What both exports do after the test for an empty list, with the step list and the
  output name as parameters; \<open>exportVideoSimple_drive\<close> and
  \<open>exportVideoWithFrames_drive\<close> below unfold the exports to it.\<close>

definition drive ::
  "engine \<Rightarrow> nat option \<Rightarrow> step list \<Rightarrow> string \<Rightarrow> world \<Rightarrow> (error + blob) \<times> world" where
  "drive eng cb ss nm w =
     (let w1 = report cb 0 w
      in case initFFmpeg eng cb w1 of
           (Inl e, w2) \<Rightarrow> (Inl e, w2)
         | (Inr u, w2) \<Rightarrow>
             (let (ok, w3) = run eng cb ss w2
              in if ok then (Inr (Blob nm), w3)
                 else (Inl ExportFailed, w3\<lparr>console := console w3 @ [ExportFailed]\<rparr>)))"

subsection \<open>The engine's files and the movie that is read back\<close>

text \<open>
  What the calls mean for the storage of the engine, as far as the order and the content
  of the exported movie go. A movie is a sequence of clips: a cut of the video fetched
  from a URL, or a still (the bytes decoded from a base64 text) held for a duration at a
  size. A file holds the fetched video, a decoded image, the concat listing, or a movie
  made by a command.
\<close>

datatype clip =
    SourceClip string rat "rat option"
  | StillClip string rat int int

datatype content = Video string | Image string | Listing "string list" | Movie "clip list"

type_synonym files = "string \<Rightarrow> content option"

fun stored :: "payload \<Rightarrow> content" where
  "stored (VideoData url) = Video url"
| "stored (ImageBytes b) = Image b"
| "stored (ConcatList names) = Listing names"

text \<open>What a command finds in a file it takes as input; nothing, when the file is
  missing or of another kind.\<close>

definition video_of :: "files \<Rightarrow> string \<Rightarrow> string list" where
  "video_of fs name = (case fs name of Some (Video url) \<Rightarrow> [url] | _ \<Rightarrow> [])"

definition image_of :: "files \<Rightarrow> string \<Rightarrow> string list" where
  "image_of fs name = (case fs name of Some (Image b) \<Rightarrow> [b] | _ \<Rightarrow> [])"

definition listing_of :: "files \<Rightarrow> string \<Rightarrow> string list" where
  "listing_of fs name = (case fs name of Some (Listing names) \<Rightarrow> names | _ \<Rightarrow> [])"

definition movie_of :: "files \<Rightarrow> string \<Rightarrow> clip list" where
  "movie_of fs name = (case fs name of Some (Movie cs) \<Rightarrow> cs | _ \<Rightarrow> [])"

text \<open>
  The filter graph. \<^verbatim>\<open>concat=n=N\<close> joins its first \<open>N\<close> input streams. A stream
  \<^verbatim>\<open>[v k]\<close> or \<^verbatim>\<open>[vfinal]\<close> is the trim of \<^verbatim>\<open>[0:v]\<close>, the first \<^verbatim>\<open>-i\<close> input, that
  defines it. A stream \<^verbatim>\<open>[vimg i]\<close> is the \<^verbatim>\<open>loop\<close> of \<^verbatim>\<open>[img i]\<close>, which the \<^verbatim>\<open>scale\<close>
  filter \<open>Scale i\<close> makes from \<^verbatim>\<open>[i+1:v]\<close>, the \<^verbatim>\<open>-i\<close> input number \<open>i + 1\<close>.
\<close>

fun concat_of :: "filter_part list \<Rightarrow> label list" where
  "concat_of [] = []"
| "concat_of (ConcatF ls n # ps) = take n ls"
| "concat_of (p # ps) = concat_of ps"

definition input_at :: "string list \<Rightarrow> nat \<Rightarrow> string list" where
  "input_at inputs k = (if k < length inputs then [inputs ! k] else [])"

fun cut_clip :: "string \<Rightarrow> segment \<Rightarrow> clip list" where
  "cut_clip url (SourceSegment s e) = [SourceClip url s e]"
| "cut_clip url (InsertSegment d tw th) = []"

fun stream_clip :: "files \<Rightarrow> string list \<Rightarrow> filter_part list \<Rightarrow> label \<Rightarrow> clip list" where
  "stream_clip fs inputs ps (ImgL i) =
     [StillClip b d tw th.
        name \<leftarrow> input_at inputs (Suc i), b \<leftarrow> image_of fs name,
        d \<leftarrow> loop_of i ps, (tw, th) \<leftarrow> scale_of i ps]"
| "stream_clip fs inputs ps l =
     [c. name \<leftarrow> input_at inputs 0, url \<leftarrow> video_of fs name,
         seg \<leftarrow> trim_of l ps, c \<leftarrow> cut_clip url seg]"

text \<open>
  The movie a command makes from the files present. The cuts of \<^verbatim>\<open>exportVideoSimple\<close>
  read \<^verbatim>\<open>-i input.mp4\<close>; the still reads its image; the concat demuxer joins the files
  named in its listing, in the order of the listing.
\<close>

fun made :: "files \<Rightarrow> command \<Rightarrow> clip list" where
  "made fs Probe = []"
| "made fs (CutSegment ss t name) =
     [SourceClip url ss (Some (ss + t)). url \<leftarrow> video_of fs ''input.mp4'']"
| "made fs (ImageSegment img t tw th name) = [StillClip b t tw th. b \<leftarrow> image_of fs img]"
| "made fs (FinalSegment ss t name) =
     [SourceClip url ss (map_option (\<lambda>d. ss + d) t). url \<leftarrow> video_of fs ''input.mp4'']"
| "made fs (ConcatCmd listing name) = concat (map (movie_of fs) (listing_of fs listing))"
| "made fs (FilterComplex inputs parts name) =
     concat (map (stream_clip fs inputs parts) (concat_of parts))"

text \<open>A command that returns has written its movie to its output file, replacing what
  was there.\<close>

definition exec :: "command \<Rightarrow> files \<Rightarrow> files" where
  "exec c fs = (\<lambda>name. if name \<in> set (output_of c) then Some (Movie (made fs c)) else fs name)"

fun effect :: "engine_op \<Rightarrow> files \<Rightarrow> files" where
  "effect (WriteFile name data) fs = fs(name \<mapsto> stored data)"
| "effect (Exec c) fs = exec c fs"
| "effect (DeleteFile name) fs = fs(name := None)"
| "effect op fs = fs"

text \<open>
  The content that the first \<^verbatim>\<open>readFile\<close> that returns hands back, when the trace is
  played on the files \<open>fs\<close>; a call that threw has changed nothing.
\<close>

fun read_back :: "(engine_op \<times> bool) list \<Rightarrow> files \<Rightarrow> content option" where
  "read_back [] fs = None"
| "read_back ((ReadFile name, ok) # tr) fs = (if ok then fs name else read_back tr fs)"
| "read_back ((op, ok) # tr) fs = read_back tr (if ok then effect op fs else fs)"

fun is_read :: "engine_op \<Rightarrow> bool" where
  "is_read (ReadFile name) = True"
| "is_read op = False"

text \<open>
  The content of the blob that an export returns, when the engine held the files \<open>fs\<close>
  before the call; \<open>None\<close> when the export throws.
\<close>

definition simple_movie ::
  "engine \<Rightarrow> ExportConfig \<Rightarrow> nat option \<Rightarrow> world \<Rightarrow> files \<Rightarrow> content option" where
  "simple_movie eng config onProgress w fs =
     (case exportVideoSimple eng config onProgress w of
        (Inr b, w') \<Rightarrow> read_back (new_ops w w') fs
      | (Inl e, w') \<Rightarrow> None)"

definition frames_movie ::
  "engine \<Rightarrow> ExportConfig \<Rightarrow> nat option \<Rightarrow> world \<Rightarrow> files \<Rightarrow> content option" where
  "frames_movie eng config onProgress w fs =
     (case exportVideoWithFrames eng config onProgress w of
        (Inr b, w') \<Rightarrow> read_back (new_ops w w') fs
      | (Inl e, w') \<Rightarrow> None)"

text \<open>The segment a clip plays, and the still that an event stands for.\<close>

fun plain :: "clip \<Rightarrow> segment" where
  "plain (SourceClip url s e) = SourceSegment s e"
| "plain (StillClip b d tw th) = InsertSegment d tw th"

fun is_still :: "clip \<Rightarrow> bool" where
  "is_still (StillClip b d tw th) = True"
| "is_still (SourceClip url s e) = False"

definition still_of :: "ExportConfig \<Rightarrow> InsertFrame \<Rightarrow> clip" where
  "still_of config frame =
     StillClip (strip_data_url (imageData frame)) (frameDuration config frame)
       (targetWidth config) (targetHeight config)"

text \<open>
  The clips that one pass of either loop describes, from cursor \<open>l\<close>, and the trailing
  clip of \<^verbatim>\<open>exportVideoSimple\<close>. Both are proof devices, like \<open>cut_list\<close>;
  \<open>simple_movie_success\<close> and \<open>frames_movie_success\<close> below relate them to the movies
  read back.
\<close>

fun clip_list :: "ExportConfig \<Rightarrow> rat \<Rightarrow> InsertFrame list \<Rightarrow> clip list" where
  "clip_list config l [] = []"
| "clip_list config l (f # fs) =
     (if timestamp f > l then [SourceClip (videoUrl config) l (Some (timestamp f))] else [])
     @ still_of config f # clip_list config (timestamp f) fs"

definition final_clip :: "ExportConfig \<Rightarrow> rat \<Rightarrow> clip list" where
  "final_clip config l =
     (if js_not (videoDuration config) then [SourceClip (videoUrl config) l None]
      else if l < the (videoDuration config) - 1 / 1000
      then [SourceClip (videoUrl config) l (Some (the (videoDuration config)))]
      else [])"

text \<open>Reading a decimal numeral back: \<open>show_nat\<close> loses nothing, so the file names of
  different indices differ.\<close>

definition read_nat :: "string \<Rightarrow> nat" where
  "read_nat s = foldl (\<lambda>a c. 10 * a + (of_char c - 48)) 0 s"

subsection \<open>Engines and inputs used in the examples\<close>

text \<open>An engine that throws at its \<open>k\<close>-th call, and one that never throws and emits the
  progress fractions \<open>es\<close> during its \<open>k\<close>-th call.\<close>

definition throw_at :: "nat \<Rightarrow> engine" where
  "throw_at k n = \<lparr>throws = (n = k), events = []\<rparr>"

definition emit_at :: "nat \<Rightarrow> rat list \<Rightarrow> engine" where
  "emit_at k es n = \<lparr>throws = False, events = (if n = k then es else [])\<rparr>"

definition single_frame :: InsertFrame where
  "single_frame =
     \<lparr>timestamp = 0, imageData = ''AAAA'', duration = Some 2, width = None, height = None\<rparr>"

definition single_config :: ExportConfig where
  "single_config = base_config\<lparr>frames := [single_frame]\<rparr>"

definition negative_frame :: InsertFrame where
  "negative_frame =
     \<lparr>timestamp = - 1, imageData = ''AAAA'', duration = Some 2, width = None, height = None\<rparr>"

definition negative_config :: ExportConfig where
  "negative_config = base_config\<lparr>frames := [negative_frame], videoDuration := Some 10\<rparr>"

text \<open>An event at -1 s whose \<^verbatim>\<open>imageData\<close> is the address of an image, not base64 text.\<close>

definition url_frame :: InsertFrame where
  "url_frame =
     \<lparr>timestamp = - 1, imageData = ''https://cdn.example/a.png'', duration = Some 2,
      width = None, height = None\<rparr>"

definition url_config :: ExportConfig where
  "url_config = base_config\<lparr>frames := [url_frame], videoDuration := Some 10\<rparr>"

definition early_frame :: InsertFrame where
  "early_frame =
     \<lparr>timestamp = 3, imageData = ''AAAA'', duration = Some 2, width = None, height = None\<rparr>"

definition late_frame :: InsertFrame where
  "late_frame =
     \<lparr>timestamp = 12, imageData = ''AAAB'', duration = Some 2, width = None, height = None\<rparr>"

definition late_config :: ExportConfig where
  "late_config = base_config\<lparr>frames := [early_frame, late_frame], videoDuration := Some 10\<rparr>"

definition sized_frame :: InsertFrame where
  "sized_frame =
     \<lparr>timestamp = 0, imageData = ''AAAA'', duration = Some 2,
      width = Some 640, height = Some 360\<rparr>"

definition sized_config :: ExportConfig where
  "sized_config =
     base_config\<lparr>frames := [sized_frame], videoWidth := Some 1920, videoHeight := Some 1080\<rparr>"

definition zero_frame :: InsertFrame where
  "zero_frame =
     \<lparr>timestamp = 0, imageData = ''AAAA'', duration = Some 0, width = None, height = None\<rparr>"

definition zero_config :: ExportConfig where
  "zero_config = base_config\<lparr>frames := [zero_frame], imageDuration := Some 0\<rparr>"

definition default_config :: ExportConfig where
  "default_config = base_config\<lparr>frames := [zero_frame]\<rparr>"

definition end_frame :: InsertFrame where
  "end_frame =
     \<lparr>timestamp = 10, imageData = ''AAAA'', duration = Some 2, width = None, height = None\<rparr>"

definition end_config :: ExportConfig where
  "end_config = base_config\<lparr>frames := [end_frame], videoDuration := Some 10\<rparr>"

definition tie_a :: InsertFrame where
  "tie_a = \<lparr>timestamp = 0, imageData = ''AAAA'', duration = Some 2, width = None, height = None\<rparr>"

definition tie_b :: InsertFrame where
  "tie_b = \<lparr>timestamp = 0, imageData = ''AAAB'', duration = Some 1, width = None, height = None\<rparr>"

definition tie_config :: ExportConfig where
  "tie_config = base_config\<lparr>frames := [tie_a, tie_b]\<rparr>"

subsection \<open>The target size as the specification words it\<close>

text \<open>
  Stated from the specification, for comparison with \<open>targetWidth\<close> and \<open>targetHeight\<close>:
  the event's own size if present, else the size of the source, else 1280 by 720.
\<close>

definition spec_targetWidth :: "ExportConfig \<Rightarrow> InsertFrame \<Rightarrow> int" where
  "spec_targetWidth config frame =
     (case width frame of Some x \<Rightarrow> x
      | None \<Rightarrow> (case videoWidth config of Some y \<Rightarrow> y | None \<Rightarrow> 1280))"

definition spec_targetHeight :: "ExportConfig \<Rightarrow> InsertFrame \<Rightarrow> int" where
  "spec_targetHeight config frame =
     (case height frame of Some x \<Rightarrow> x
      | None \<Rightarrow> (case videoHeight config of Some y \<Rightarrow> y | None \<Rightarrow> 720))"

fun size_of :: "segment \<Rightarrow> int \<times> int" where
  "size_of (InsertSegment d tw th) = (tw, th)"
| "size_of (SourceSegment s e) = (0, 0)"

section \<open>Properties\<close>



subsection \<open>Both loops build the same cut list\<close>

lemmas config_simps =
  sortedFrames_def frameDuration_def targetWidth_def targetHeight_def out_name_def
  js_or_def js_not_def default_to_def final_segment_def cursor_def

lemma segment_loop_edl:
  "concat (map segment_of (fst (segment_loop config i l fs))) = cut_list config l fs"
  by (induction fs arbitrary: i l) (simp_all add: Let_def case_prod_beta)

lemma segment_loop_cursor: "snd (segment_loop config i l fs) = cursor l fs"
  by (induction fs arbitrary: i l) (simp_all add: cursor_def Let_def case_prod_beta)

lemma final_segment_no_insert:
  "filter is_insert (concat (map segment_of (final_segment config l))) = []"
  by (simp add: final_segment_def)

lemma simple_edl_eq:
  "simple_edl config =
     cut_list config 0 (sortedFrames config)
     @ concat (map segment_of (final_segment config (cursor 0 (sortedFrames config))))"
  by (simp add: simple_edl_def simple_commands_def case_prod_beta
      segment_loop_edl segment_loop_cursor)

lemma cut_list_inserts:
  "filter is_insert (cut_list config l fs) =
     map (\<lambda>f. InsertSegment (frameDuration config f) (targetWidth config) (targetHeight config)) fs"
  by (induction fs arbitrary: l) simp_all

lemma cut_list_append:
  "cut_list config l (xs @ ys) = cut_list config l xs @ cut_list config (cursor l xs) ys"
  by (induction xs arbitrary: l) (simp_all add: cursor_def)

lemma trim_of_append:
  "trim_of l (ps @ qs) = (if trim_of l ps = [] then trim_of l qs else trim_of l ps)"
  by (induction l ps rule: trim_of.induct) simp_all

lemma scale_of_append:
  "scale_of i (ps @ qs) = (if scale_of i ps = [] then scale_of i qs else scale_of i ps)"
  by (induction i ps rule: scale_of.induct) simp_all

lemma loop_of_append:
  "loop_of i (ps @ qs) = (if loop_of i ps = [] then loop_of i qs else loop_of i ps)"
  by (induction i ps rule: loop_of.induct) simp_all

text \<open>Every concat input of the filter loop resolves, in the finished filter list, to the
  segment the loop meant: indices are never reused.\<close>

lemma filter_loop_edl:
  "fresh i s P \<Longrightarrow>
   filter_loop config i l s fs = (parts, inputs, final, s') \<Longrightarrow>
   concat (map (stream_segment (P @ parts @ Q)) inputs) = cut_list config l fs"
proof (induction fs arbitrary: i l s P parts inputs final s')
  case Nil
  then show ?case by simp
next
  case (Cons f fs)
  obtain parts' inputs' final' s2 where rest:
    "filter_loop config (Suc i) (timestamp f)
       (Suc (if timestamp f > l then Suc s else s)) fs = (parts', inputs', final', s2)"
    by (metis prod_cases4)
  let ?p1 = "if timestamp f > l
             then [VTrim l (Some (timestamp f)) (SrcL s), ATrim l (Some (timestamp f)) (SrcL s)]
             else []"
  let ?p2 = "[Scale i (targetWidth config) (targetHeight config),
              Silence i (frameDuration config f),
              Loop i \<lceil>frameDuration config f * 30\<rceil> (frameDuration config f)]"
  have parts: "parts = ?p1 @ ?p2 @ parts'"
    and inputs: "inputs = (if timestamp f > l then [SrcL s] else []) @ ImgL i # inputs'"
    using Cons.prems(2) rest by (simp_all add: Let_def)
  have fr: "fresh (Suc i) (Suc (if timestamp f > l then Suc s else s)) (P @ ?p1 @ ?p2)"
    using Cons.prems(1) by (auto simp: fresh_def trim_of_append scale_of_append loop_of_append)
  have IH: "concat (map (stream_segment ((P @ ?p1 @ ?p2) @ parts' @ Q)) inputs')
              = cut_list config (timestamp f) fs"
    by (rule Cons.IH [OF fr rest])
  have img: "stream_segment (P @ parts @ Q) (ImgL i) =
      [InsertSegment (frameDuration config f) (targetWidth config) (targetHeight config)]"
    using Cons.prems(1)
    by (auto simp: parts fresh_def trim_of_append scale_of_append loop_of_append)
  have src: "timestamp f > l \<Longrightarrow>
     stream_segment (P @ parts @ Q) (SrcL s) = [SourceSegment l (Some (timestamp f))]"
    using Cons.prems(1)
    by (auto simp: parts fresh_def trim_of_append)
  show ?case
    using IH img src by (simp add: inputs) (simp add: parts)
qed

lemma filter_loop_cursor:
  "filter_loop config i l s fs = (parts, inputs, final, s') \<Longrightarrow> final = cursor l fs"
  by (induction fs arbitrary: i l s parts inputs final s')
     (auto simp: cursor_def Let_def split: prod.splits if_splits)

lemma filter_loop_no_final:
  "filter_loop config i l s fs = (parts, inputs, final, s') \<Longrightarrow> trim_of FinalL parts = []"
  by (induction fs arbitrary: i l s parts inputs final s')
     (auto simp: Let_def trim_of_append split: prod.splits if_splits)

lemma frames_edl_eq:
  "frames_edl config =
     cut_list config 0 (sortedFrames config)
     @ [SourceSegment (cursor 0 (sortedFrames config)) None]"
proof -
  obtain parts inputs final s' where fl:
    "filter_loop config 0 0 0 (sortedFrames config) = (parts, inputs, final, s')"
    by (metis prod_cases4)
  have "fresh 0 0 []" by (simp add: fresh_def)
  from filter_loop_edl [OF this fl]
  have "concat (map (stream_segment (parts @ Q)) inputs) = cut_list config 0 (sortedFrames config)"
    for Q by simp
  moreover have "final = cursor 0 (sortedFrames config)"
    using fl by (rule filter_loop_cursor)
  moreover have "trim_of FinalL parts = []"
    using fl by (rule filter_loop_no_final)
  ultimately show ?thesis
    by (simp add: frames_edl_def concatInputs_def filterParts_def fl trim_of_append)
qed

subsection \<open>Sorting and the shape of the cut list\<close>

lemma sortedFrames_sorted: "sorted (map timestamp (sortedFrames config))"
  by (simp add: sortedFrames_def)

lemma sortedFrames_stable:
  "filter (\<lambda>f. timestamp f = t) (sortedFrames config)
     = filter (\<lambda>f. timestamp f = t) (frames config)"
  by (simp add: sortedFrames_def sort_key_stable)

lemma sortedFrames_head_le:
  assumes "f \<in> set (frames config)"
  shows "sortedFrames config \<noteq> [] \<and> timestamp (hd (sortedFrames config)) \<le> timestamp f"
proof -
  have mem: "f \<in> set (sortedFrames config)"
    using assms by (simp add: sortedFrames_def)
  then obtain s ss where s: "sortedFrames config = s # ss"
    by (cases "sortedFrames config") auto
  have "sorted (map timestamp (s # ss))"
    using sortedFrames_sorted [of config] by (simp add: s)
  then have "timestamp s \<le> timestamp f"
    using mem by (auto simp: s)
  then show ?thesis by (simp add: s)
qed

lemma cut_list_pair:
  assumes "timestamp f = timestamp g"
  shows "\<exists>A B. cut_list config l (xs @ f # g # ys) =
            A @ [InsertSegment (frameDuration config f) (targetWidth config) (targetHeight config),
                 InsertSegment (frameDuration config g) (targetWidth config) (targetHeight config)]
              @ B
          \<and> length (filter is_insert A) = length xs"
proof -
  let ?pre = "if timestamp f > cursor l xs
              then [SourceSegment (cursor l xs) (Some (timestamp f))] else []"
  have "cut_list config l (xs @ f # g # ys) =
          (cut_list config l xs @ ?pre)
          @ [InsertSegment (frameDuration config f) (targetWidth config) (targetHeight config),
             InsertSegment (frameDuration config g) (targetWidth config) (targetHeight config)]
          @ cut_list config (timestamp g) ys"
    using assms by (simp add: cut_list_append)
  moreover have "length (filter is_insert (cut_list config l xs @ ?pre)) = length xs"
    by (simp add: cut_list_inserts)
  ultimately show ?thesis by blast
qed

lemma cut_list_head:
  assumes "fs \<noteq> []" and "timestamp (hd fs) \<le> l"
  shows "hd (cut_list config l fs @ rest) =
           InsertSegment (frameDuration config (hd fs)) (targetWidth config) (targetHeight config)"
  using assms by (cases fs) simp_all

lemma inserts_in_edl:
  assumes "frame \<in> set (frames config)"
  shows "InsertSegment (frameDuration config frame) (targetWidth config) (targetHeight config)
           \<in> set (filter is_insert (simple_edl config))"
    and "InsertSegment (frameDuration config frame) (targetWidth config) (targetHeight config)
           \<in> set (filter is_insert (frames_edl config))"
  using assms
  by (simp_all add: simple_edl_eq frames_edl_eq cut_list_inserts final_segment_no_insert
      sortedFrames_def del: set_filter)

text \<open>In \<^verbatim>\<open>exportVideoSimple\<close> the trailing segment is emitted exactly when the duration
  is falsy (absent or 0) or the cursor is more than 1 ms before the end; when the
  duration is known it ends at the end of the source and is longer than 1 ms.\<close>

lemma simple_trailing_iff:
  "final_segment config lastCutTime \<noteq> [] \<longleftrightarrow>
     (videoDuration config = None \<or> videoDuration config = Some 0 \<or>
      lastCutTime < the (videoDuration config) - 1 / 1000)"
  by (auto simp: final_segment_def js_not_def split: option.splits)

lemma simple_trailing_segment:
  "concat (map segment_of (final_segment config lastCutTime)) =
     (if videoDuration config = None \<or> videoDuration config = Some 0
      then [SourceSegment lastCutTime None]
      else if lastCutTime < the (videoDuration config) - 1 / 1000
      then [SourceSegment lastCutTime (Some (the (videoDuration config)))]
      else [])"
  by (auto simp: final_segment_def js_not_def split: option.splits)

subsection \<open>Runs of a step list\<close>

lemma ops_of_simps [simp]:
  "ops_of [] = []"
  "ops_of (s # ss) = op_of s @ ops_of ss"
  "ops_of (ss @ ts) = ops_of ss @ ops_of ts"
  by (simp_all add: ops_of_def)

lemma quiet_ops_simps [simp]:
  "quiet_ops [] = []"
  "quiet_ops (s # ss) = quiet_of s @ quiet_ops ss"
  "quiet_ops (ss @ ts) = quiet_ops ss @ quiet_ops ts"
  by (simp_all add: quiet_ops_def)

lemma reports_simps [simp]:
  "reports [] = []"
  "reports (s # ss) = report_of s @ reports ss"
  "reports (ss @ ts) = reports ss @ reports ts"
  by (simp_all add: reports_def)

lemma returned_simps [simp]:
  "returned [] = []"
  "returned (x # xs) = (x, True) # returned xs"
  "returned (xs @ ys) = returned xs @ returned ys"
  by (simp_all add: returned_def)

lemma staged_simps [simp]:
  "staged [] = []"
  "staged (x # xs) = staged_by x @ staged xs"
  "staged (xs @ ys) = staged xs @ staged ys"
  by (simp_all add: staged_def)

lemma released_simps [simp]:
  "released [] = []"
  "released (x # xs) = released_by x @ released xs"
  "released (xs @ ys) = released xs @ released ys"
  by (simp_all add: released_def)

lemma unreleased_simps [simp]:
  "unreleased [] = []"
  "unreleased (x # xs) = unreleased_by x @ unreleased xs"
  "unreleased (xs @ ys) = unreleased xs @ unreleased ys"
  by (simp_all add: unreleased_def)

lemma attempted_simps [simp]:
  "attempted [] = []"
  "attempted (x # xs) = attempted_by x @ attempted xs"
  "attempted (xs @ ys) = attempted xs @ attempted ys"
  by (simp_all add: attempted_def)

text \<open>Every \<^verbatim>\<open>deleteFile\<close> issued either released its file or left it.\<close>

lemma attempted_split: "mset (attempted tr) = mset (released tr) + mset (unreleased tr)"
proof (induction tr)
  case Nil
  then show ?case by simp
next
  case (Cons x tr)
  obtain op ok where x: "x = (op, ok)" by (cases x)
  show ?case using Cons by (cases op) (simp_all add: x)
qed

lemma attempted_map_fst: "attempted tr = attempted (returned (map fst tr))"
proof (induction tr)
  case Nil
  then show ?case by simp
next
  case (Cons x tr)
  obtain op ok where x: "x = (op, ok)" by (cases x)
  show ?case using Cons by (cases op) (simp_all add: x)
qed

lemma staged_map_fst:
  "\<forall>x\<in>set tr. \<not> snd x \<longrightarrow> is_delete (fst x) \<Longrightarrow> staged tr = staged (returned (map fst tr))"
proof (induction tr)
  case Nil
  then show ?case by simp
next
  case (Cons x tr)
  obtain op ok where x: "x = (op, ok)" by (cases x)
  show ?case using Cons by (cases op) (auto simp: x)
qed

lemma unreleased_subset:
  "\<forall>x\<in>set tr. \<not> snd x \<longrightarrow> fst x \<in> set Q \<Longrightarrow>
     set (unreleased tr) \<subseteq> set (attempted (returned Q))"
proof (induction tr)
  case Nil
  then show ?case by simp
next
  case (Cons x tr)
  obtain op ok where x: "x = (op, ok)" by (cases x)
  have mem: "DeleteFile name \<in> set Q \<Longrightarrow> name \<in> set (attempted (returned Q))" for name
    by (induction Q) auto
  show ?case using Cons mem by (cases op) (auto simp: x)
qed

lemma unreleased_nil:
  "\<forall>x\<in>set tr. snd x \<Longrightarrow> unreleased tr = []"
proof (induction tr)
  case Nil
  then show ?case by simp
next
  case (Cons x tr)
  obtain op ok where x: "x = (op, ok)" by (cases x)
  show ?case using Cons by (cases op) (auto simp: x)
qed

text \<open>\<open>run\<close> and \<open>script\<close> agree.\<close>

lemma report_eq: "report cb p w = w\<lparr>delivered := delivered w @ stage_entry cb p\<rparr>"
  by (simp add: report_def stage_entry_def split: option.splits)

lemma call_eq:
  "call eng op w =
     (\<not> throws (eng (length (trace w))),
      w\<lparr>trace := trace w @ [(op, \<not> throws (eng (length (trace w))))],
        delivered := delivered w @ engine_entries (listener w) op (events (eng (length (trace w))))\<rparr>)"
  by (simp add: call_def on_progress_def engine_entries_def Let_def
      split: engine_op.splits option.splits)

lemma run_script:
  "run eng cb ss w =
     (case script eng cb (listener w) (length (trace w)) ss of
        (ok, ops, es) \<Rightarrow> (ok, w\<lparr>trace := trace w @ ops, delivered := delivered w @ es\<rparr>))"
proof (induction ss arbitrary: w)
  case Nil
  then show ?case by simp
next
  case (Cons s ss)
  show ?case
  proof (cases s)
    case (Report p)
    show ?thesis
      by (simp add: Report Cons.IH report_eq split: prod.splits)
  next
    case (Call op)
    show ?thesis
      by (simp add: Call Cons.IH call_eq split: prod.splits)
  next
    case (Quiet op)
    show ?thesis
      by (simp add: Quiet Cons.IH call_eq split: prod.splits)
  next
    case Throw
    show ?thesis
      by (simp add: Throw)
  qed
qed

text \<open>Progress.\<close>

lemma stage_percents_simps [simp]:
  "stage_percents [] = []"
  "stage_percents (xs @ ys) = stage_percents xs @ stage_percents ys"
  "stage_percents (stage_entry cb p) = (if cb = None then [] else [p])"
  "stage_percents (engine_entries l op es) = []"
  by (auto simp: stage_percents_def stage_entry_def engine_entries_def
      split: option.splits engine_op.splits)

lemma script_stage_none:
  "stage_percents (snd (snd (script eng None l n ss))) = []"
proof (induction ss arbitrary: n)
  case Nil
  then show ?case by simp
next
  case (Cons s ss)
  then show ?case by (cases s) (simp_all add: case_prod_beta)
qed

lemma script_stage_prefix:
  "prefix (stage_percents (snd (snd (script eng cb l n ss)))) (reports ss)"
proof (cases cb)
  case None
  then show ?thesis by (simp add: script_stage_none)
next
  case (Some c)
  show ?thesis
  proof (induction ss arbitrary: n)
    case Nil
    then show ?case by simp
  next
    case (Cons s ss)
    then show ?case by (cases s) (simp_all add: case_prod_beta Some)
  qed
qed

lemma script_snoc_report:
  "script eng cb l n (ss @ [Report p]) =
     (case script eng cb l n ss of
        (ok, ops, es) \<Rightarrow> (ok, ops, if ok then es @ stage_entry cb p else es))"
proof (induction ss arbitrary: n)
  case Nil
  then show ?case by simp
next
  case (Cons s ss)
  then show ?case by (cases s) (simp_all add: case_prod_beta)
qed

text \<open>A run that completes has issued every call of its step list, none of them a throw
  of the code, and only calls in their own \<^verbatim>\<open>try\<close> have thrown.\<close>

lemma script_success:
  "fst (script eng cb l n ss) \<Longrightarrow>
     Throw \<notin> set ss \<and>
     map fst (fst (snd (script eng cb l n ss))) = ops_of ss \<and>
     (\<forall>x\<in>set (fst (snd (script eng cb l n ss))). \<not> snd x \<longrightarrow> fst x \<in> set (quiet_ops ss))"
proof (induction ss arbitrary: n)
  case Nil
  then show ?case by simp
next
  case (Cons s ss)
  then show ?case
    by (cases s) (auto simp: case_prod_beta split: if_splits)
qed

lemma script_never_throws:
  "\<forall>n. \<not> throws (eng n) \<Longrightarrow> Throw \<notin> set ss \<Longrightarrow>
     fst (script eng cb l n ss) \<and> fst (snd (script eng cb l n ss)) = returned (ops_of ss)"
proof (induction ss arbitrary: n)
  case Nil
  then show ?case by simp
next
  case (Cons s ss)
  then show ?case
    by (cases s) (simp_all add: case_prod_beta)
qed

text \<open>Before a call of the step list has returned, no step after it has run: here, no
  \<^verbatim>\<open>deleteFile\<close> is issued unless the read that precedes the cleanup returned.\<close>

lemma script_no_delete_before:
  assumes "quiet_ops pre = []" and "attempted (returned (ops_of pre)) = []"
    and "\<not> is_delete r"
    and "(r, True) \<notin> set (fst (snd (script eng cb l n (pre @ Call r # post))))"
  shows "attempted (fst (snd (script eng cb l n (pre @ Call r # post)))) = []"
  using assms
proof (induction pre arbitrary: n)
  case Nil
  have "attempted_by (r, False) = []"
    using Nil.prems(3) by (cases r) simp_all
  with Nil show ?case by (simp add: case_prod_beta split: if_splits)
next
  case (Cons s pre)
  show ?case
  proof (cases s)
    case (Report p)
    with Cons show ?thesis by (simp add: case_prod_beta)
  next
    case (Call op)
    have nd: "attempted_by (op, b) = []" for b
      using Cons.prems(2) by (cases op) (simp_all add: Call)
    show ?thesis
    proof (cases "throws (eng n)")
      case True
      then show ?thesis by (simp add: Call nd)
    next
      case False
      with Cons Call show ?thesis by (simp add: case_prod_beta nd)
    qed
  next
    case (Quiet op)
    with Cons.prems(1) show ?thesis by simp
  next
    case Throw
    then show ?thesis by simp
  qed
qed

text \<open>When the first two calls return, they are in the trace.\<close>

lemma script_first_calls:
  "\<not> throws (eng n) \<Longrightarrow> \<not> throws (eng (Suc n)) \<Longrightarrow>
     (b, True) \<in> set (fst (snd (script eng cb l n (Report p # Call a # Call b # ss))))"
  by (simp add: case_prod_beta)

subsection \<open>The step lists of the two exports\<close>

lemma write_images_ops:
  "attempted (returned (ops_of (write_images name i fs))) = [] \<and>
   quiet_ops (write_images name i fs) = [] \<and>
   reports (write_images name i fs) = []"
  by (induction fs arbitrary: i) simp_all

lemma write_images_throw:
  "Throw \<in> set (write_images name i fs) \<longleftrightarrow> \<not> list_all (\<lambda>f. decodes (imageData f)) fs"
  by (induction fs arbitrary: i) auto

lemma write_images_staged:
  "list_all (\<lambda>f. decodes (imageData f)) fs \<Longrightarrow>
     staged (returned (ops_of (write_images name i fs))) = map name [i..<i + length fs]"
proof (induction fs arbitrary: i)
  case Nil
  then show ?case by simp
next
  case (Cons f fs)
  have "i < i + length (f # fs)" by simp
  then have "[i..<i + length (f # fs)] = i # [Suc i..<i + length (f # fs)]"
    by (rule upt_conv_Cons)
  with Cons.IH [of "Suc i"] Cons.prems show ?case by simp
qed

lemma delete_images_ops:
  "staged (returned (ops_of (delete_images name n))) = [] \<and>
   attempted (returned (ops_of (delete_images name n))) = map name [0..<n] \<and>
   quiet_ops (delete_images name n) = [] \<and>
   Throw \<notin> set (delete_images name n) \<and>
   reports (delete_images name n) = []"
  by (induction n) (auto simp: delete_images_def)

lemma exec_all_ops:
  "staged (returned (ops_of (map (\<lambda>c. Call (Exec c)) cs))) = concat (map output_of cs) \<and>
   attempted (returned (ops_of (map (\<lambda>c. Call (Exec c)) cs))) = [] \<and>
   quiet_ops (map (\<lambda>c. Call (Exec c)) cs) = [] \<and>
   Throw \<notin> set (map (\<lambda>c. Call (Exec c)) cs) \<and>
   reports (map (\<lambda>c. Call (Exec c)) cs) = []"
  by (induction cs) auto

lemma delete_segments_ops:
  "staged (returned (ops_of (map (\<lambda>s. Quiet (DeleteFile s)) xs))) = [] \<and>
   attempted (returned (ops_of (map (\<lambda>s. Quiet (DeleteFile s)) xs))) = xs \<and>
   quiet_ops (map (\<lambda>s. Quiet (DeleteFile s)) xs) = map DeleteFile xs \<and>
   Throw \<notin> set (map (\<lambda>s. Quiet (DeleteFile s)) xs) \<and>
   reports (map (\<lambda>s. Quiet (DeleteFile s)) xs) = []"
  by (induction xs) auto

lemma attempted_deletes: "attempted (returned (map DeleteFile xs)) = xs"
  by (induction xs) simp_all

lemma decodable_sorted:
  "list_all (\<lambda>f. decodes (imageData f)) (sortedFrames config) \<longleftrightarrow> decodable config"
  by (simp add: decodable_def sortedFrames_def list_all_iff)

lemma simple_steps_throw: "Throw \<in> set (simple_steps config) \<longleftrightarrow> \<not> decodable config"
  using exec_all_ops [of "simple_commands config"] delete_segments_ops [of "segments config"]
    delete_images_ops [of img_name "length (sortedFrames config)"]
  by (simp add: simple_steps_def write_images_throw decodable_sorted)

lemma frames_steps_throw: "Throw \<in> set (frames_steps config) \<longleftrightarrow> \<not> decodable config"
  using delete_images_ops [of frame_name "length (sortedFrames config)"]
  by (simp add: frames_steps_def write_images_throw decodable_sorted)

lemma simple_steps_balanced:
  "decodable config \<Longrightarrow>
     mset (attempted (returned (ops_of (simple_steps config))))
       = mset (staged (returned (ops_of (simple_steps config))))"
  by (simp add: simple_steps_def write_images_ops write_images_staged decodable_sorted
      delete_images_ops exec_all_ops delete_segments_ops segments_def)

lemma frames_steps_balanced:
  "decodable config \<Longrightarrow>
     mset (attempted (returned (ops_of (frames_steps config))))
       = mset (staged (returned (ops_of (frames_steps config))))"
  by (simp add: frames_steps_def write_images_ops write_images_staged decodable_sorted
      delete_images_ops)

lemma simple_steps_quiet: "quiet_ops (simple_steps config) = map DeleteFile (segments config)"
  by (simp add: simple_steps_def write_images_ops delete_images_ops exec_all_ops
      delete_segments_ops)

lemma frames_steps_quiet: "quiet_ops (frames_steps config) = []"
  by (simp add: frames_steps_def write_images_ops delete_images_ops)

lemma simple_steps_reports: "reports (simple_steps config) = [15, 25, 30, 40, 70, 90, 100]"
  by (simp add: simple_steps_def write_images_ops delete_images_ops exec_all_ops
      delete_segments_ops)

lemma frames_steps_reports: "reports (frames_steps config) = [10, 20, 30, 40, 50, 90, 100]"
  by (simp add: frames_steps_def write_images_ops delete_images_ops)

lemma simple_steps_last: "\<exists>ss. simple_steps config = ss @ [Report 100]"
proof -
  have "simple_steps config = butlast (simple_steps config) @ [Report 100]"
    by (simp add: simple_steps_def butlast_append)
  then show ?thesis ..
qed

lemma frames_steps_last: "\<exists>ss. frames_steps config = ss @ [Report 100]"
proof -
  have "frames_steps config = butlast (frames_steps config) @ [Report 100]"
    by (simp add: frames_steps_def butlast_append)
  then show ?thesis ..
qed

lemma simple_steps_first:
  "\<exists>ss. simple_steps config =
     Report 15 # Call (FetchFile (videoUrl config))
       # Call (WriteFile ''input.mp4'' (VideoData (videoUrl config))) # ss"
  by (simp add: simple_steps_def)

lemma frames_steps_first:
  "\<exists>ss. frames_steps config =
     Report 10 # Call (FetchFile (videoUrl config))
       # Call (WriteFile ''input.mp4'' (VideoData (videoUrl config))) # ss"
  by (simp add: frames_steps_def)

lemma simple_steps_read:
  "\<exists>pre post. simple_steps config = pre @ Call (ReadFile (out_name config)) # post \<and>
      quiet_ops pre = [] \<and> attempted (returned (ops_of pre)) = []"
proof -
  let ?pre = "[Report 15,
      Call (FetchFile (videoUrl config)),
      Call (WriteFile ''input.mp4'' (VideoData (videoUrl config))),
      Report 25,
      Call (Exec Probe),
      Report 30]
     @ write_images img_name 0 (sortedFrames config)
     @ [Report 40]
     @ map (\<lambda>c. Call (Exec c)) (simple_commands config)
     @ [Report 70,
        Call (WriteFile ''concat.txt'' (ConcatList (segments config))),
        Call (Exec (ConcatCmd ''concat.txt'' (out_name config))),
        Report 90]"
  let ?post = "[Call (DeleteFile ''input.mp4''),
        Call (DeleteFile ''concat.txt'')]
     @ delete_images img_name (length (sortedFrames config))
     @ map (\<lambda>s. Quiet (DeleteFile s)) (segments config)
     @ [Call (DeleteFile (out_name config)),
        Report 100]"
  have "simple_steps config = ?pre @ Call (ReadFile (out_name config)) # ?post"
    by (simp add: simple_steps_def)
  moreover have "quiet_ops ?pre = [] \<and> attempted (returned (ops_of ?pre)) = []"
    by (simp add: write_images_ops exec_all_ops)
  ultimately show ?thesis by blast
qed

lemma frames_steps_read:
  "\<exists>pre post. frames_steps config = pre @ Call (ReadFile (out_name config)) # post \<and>
      quiet_ops pre = [] \<and> attempted (returned (ops_of pre)) = []"
proof -
  let ?pre = "[Report 10,
      Call (FetchFile (videoUrl config)),
      Call (WriteFile ''input.mp4'' (VideoData (videoUrl config))),
      Report 20]
     @ write_images frame_name 0 (sortedFrames config)
     @ [Report 30,
        Call (Exec Probe),
        Report 40,
        Report 50,
        Call (Exec (FilterComplex (inputArgs config) (filterParts config) (out_name config))),
        Report 90]"
  let ?post = "[Call (DeleteFile ''input.mp4'')]
     @ delete_images frame_name (length (sortedFrames config))
     @ [Call (DeleteFile (out_name config)),
        Report 100]"
  have "frames_steps config = ?pre @ Call (ReadFile (out_name config)) # ?post"
    by (simp add: frames_steps_def)
  moreover have "quiet_ops ?pre = [] \<and> attempted (returned (ops_of ?pre)) = []"
    by (simp add: write_images_ops)
  ultimately show ?thesis by blast
qed

subsection \<open>The driver around the step list\<close>

lemma exportVideoSimple_drive:
  "frames config \<noteq> [] \<Longrightarrow>
     exportVideoSimple eng config cb w = drive eng cb (simple_steps config) (out_name config) w"
  by (simp add: exportVideoSimple_def drive_def)

lemma exportVideoWithFrames_drive:
  "frames config \<noteq> [] \<Longrightarrow>
     exportVideoWithFrames eng config cb w = drive eng cb (frames_steps config) (out_name config) w"
  by (simp add: exportVideoWithFrames_def drive_def)

text \<open>The three ways through \<open>initFFmpeg\<close>, each followed by the run of the step list.\<close>

lemma drive_loaded:
  assumes "ffmpegLoaded w"
  shows "drive eng cb ss nm w =
     (case script eng cb (listener w) (length (trace w)) ss of
        (ok, ops, es) \<Rightarrow>
          (if ok then Inr (Blob nm) else Inl ExportFailed,
           w\<lparr>trace := trace w @ ops,
             delivered := delivered w @ stage_entry cb 0 @ es,
             console := console w @ (if ok then [] else [ExportFailed])\<rparr>))"
  using assms
  by (simp add: drive_def initFFmpeg_def report_eq run_script case_prod_beta)

lemma drive_load_failed:
  assumes "\<not> ffmpegLoaded w" and "throws (eng (length (trace w)))"
  shows "drive eng cb ss nm w =
     (Inl LoadFailed,
      w\<lparr>listener := cb,
        trace := trace w @ [(Load, False)],
        delivered := delivered w @ stage_entry cb 0 @ stage_entry cb 0,
        console := console w @ [LoadFailed]\<rparr>)"
  using assms
  by (simp add: drive_def initFFmpeg_def report_eq call_eq engine_entries_def Let_def)

lemma drive_load_ok:
  assumes "\<not> ffmpegLoaded w" and "\<not> throws (eng (length (trace w)))"
  shows "drive eng cb ss nm w =
     (case script eng cb cb (Suc (length (trace w))) ss of
        (ok, ops, es) \<Rightarrow>
          (if ok then Inr (Blob nm) else Inl ExportFailed,
           w\<lparr>ffmpegLoaded := True,
             listener := cb,
             trace := trace w @ (Load, True) # ops,
             delivered := delivered w @ stage_entry cb 0 @ stage_entry cb 0 @ stage_entry cb 10 @ es,
             console := console w @ (if ok then [] else [ExportFailed])\<rparr>))"
  using assms
  by (simp add: drive_def initFFmpeg_def report_eq call_eq engine_entries_def Let_def
      run_script case_prod_beta)

text \<open>The calls of one export: the load when the engine was not loaded, then the part of
  the step list that ran.\<close>

definition load_part :: "engine \<Rightarrow> world \<Rightarrow> (engine_op \<times> bool) list" where
  "load_part eng w =
     (if ffmpegLoaded w then [] else [(Load, \<not> throws (eng (length (trace w))))])"

definition steps_part ::
  "engine \<Rightarrow> nat option \<Rightarrow> step list \<Rightarrow> world \<Rightarrow>
     bool \<times> (engine_op \<times> bool) list \<times> (nat \<times> origin \<times> int) list" where
  "steps_part eng cb ss w =
     (if ffmpegLoaded w then script eng cb (listener w) (length (trace w)) ss
      else if throws (eng (length (trace w))) then (False, [], [])
      else script eng cb cb (Suc (length (trace w))) ss)"

lemma drive_ops:
  "new_ops w (snd (drive eng cb ss nm w)) = load_part eng w @ fst (snd (steps_part eng cb ss w))"
proof (cases "ffmpegLoaded w")
  case True
  then show ?thesis
    by (simp add: drive_loaded new_ops_def load_part_def steps_part_def case_prod_beta)
next
  case False
  then show ?thesis
    by (cases "throws (eng (length (trace w)))")
       (simp_all add: drive_load_failed drive_load_ok new_ops_def load_part_def steps_part_def
          case_prod_beta)
qed

lemma drive_result:
  "fst (drive eng cb ss nm w) =
     (if \<not> ffmpegLoaded w \<and> throws (eng (length (trace w))) then Inl LoadFailed
      else if fst (steps_part eng cb ss w) then Inr (Blob nm) else Inl ExportFailed)"
proof (cases "ffmpegLoaded w")
  case True
  then show ?thesis
    by (simp add: drive_loaded steps_part_def case_prod_beta)
next
  case False
  then show ?thesis
    by (cases "throws (eng (length (trace w)))")
       (simp_all add: drive_load_failed drive_load_ok steps_part_def case_prod_beta)
qed

lemma drive_delivered:
  "\<exists>a b. new_delivered w (snd (drive eng cb ss nm w))
            = a @ b @ snd (snd (steps_part eng cb ss w)) \<and>
     stage_percents a \<in> {[], [0]} \<and> stage_percents b \<in> {[], [0], [0, 10]}"
proof (cases "ffmpegLoaded w")
  case True
  have "new_delivered w (snd (drive eng cb ss nm w))
          = stage_entry cb 0 @ [] @ snd (snd (steps_part eng cb ss w))"
    using True by (simp add: drive_loaded new_delivered_def steps_part_def case_prod_beta)
  moreover have "stage_percents (stage_entry cb 0) \<in> {[], [0]}" by simp
  ultimately show ?thesis by (metis insertI1 stage_percents_simps(1))
next
  case False
  show ?thesis
  proof (cases "throws (eng (length (trace w)))")
    case True
    have "new_delivered w (snd (drive eng cb ss nm w))
            = stage_entry cb 0 @ stage_entry cb 0 @ snd (snd (steps_part eng cb ss w))"
      using False True by (simp add: drive_load_failed new_delivered_def steps_part_def)
    moreover have "stage_percents (stage_entry cb 0) \<in> {[], [0]}"
      and "stage_percents (stage_entry cb 0) \<in> {[], [0], [0, 10]}"
      by simp_all
    ultimately show ?thesis by blast
  next
    case ok: False
    have "new_delivered w (snd (drive eng cb ss nm w))
            = stage_entry cb 0 @ (stage_entry cb 0 @ stage_entry cb 10)
                @ snd (snd (steps_part eng cb ss w))"
      using False ok
      by (simp add: drive_load_ok new_delivered_def steps_part_def case_prod_beta)
    moreover have "stage_percents (stage_entry cb 0) \<in> {[], [0]}"
      and "stage_percents (stage_entry cb 0 @ stage_entry cb 10) \<in> {[], [0], [0, 10]}"
      by simp_all
    ultimately show ?thesis by blast
  qed
qed

lemma steps_part_cases:
  "steps_part eng cb ss w = (False, [], []) \<or>
   (\<exists>l n. steps_part eng cb ss w = script eng cb l n ss)"
  by (auto simp: steps_part_def)

lemma steps_part_stage_prefix:
  "prefix (stage_percents (snd (snd (steps_part eng cb ss w)))) (reports ss)"
  using steps_part_cases [of eng cb ss w] script_stage_prefix [of eng cb _ _ ss]
  by auto

lemma sorted_milestones:
  assumes a: "a \<in> {[], [0::int]}" and b: "b \<in> {[], [0], [0, 10]}"
    and c: "prefix c r" and r: "sorted r" "\<forall>x\<in>set r. 10 \<le> x"
  shows "sorted (a @ b @ c)"
proof -
  from c obtain zs where "r = c @ zs" by (auto simp: prefix_def)
  with r have "sorted c" and "\<forall>x\<in>set c. 10 \<le> x"
    by (auto simp: sorted_append)
  moreover from this have "\<forall>x\<in>set c. 0 \<le> x"
    by fastforce
  ultimately show ?thesis
    using a b by (auto simp: sorted_append)
qed

lemma driver_progress:
  assumes r: "sorted (reports ss)" "\<forall>x\<in>set (reports ss). 10 \<le> x"
    and l: "\<exists>ss'. ss = ss' @ [Report 100]"
  shows "sorted (stage_percents (new_delivered w (snd (drive eng cb ss nm w)))) \<and>
         (\<forall>b. fst (drive eng (Some c) ss nm w) = Inr b \<longrightarrow>
            last (delivered (snd (drive eng (Some c) ss nm w))) = (c, Stage, 100))"
proof
  obtain a b where ab:
    "new_delivered w (snd (drive eng cb ss nm w)) = a @ b @ snd (snd (steps_part eng cb ss w))"
    "stage_percents a \<in> {[], [0]}" "stage_percents b \<in> {[], [0], [0, 10]}"
    using drive_delivered by blast
  have "sorted (stage_percents a @ stage_percents b
          @ stage_percents (snd (snd (steps_part eng cb ss w))))"
    using ab(2,3) steps_part_stage_prefix r by (rule sorted_milestones)
  then show "sorted (stage_percents (new_delivered w (snd (drive eng cb ss nm w))))"
    by (simp add: ab(1))
next
  from l obtain ss' where ss: "ss = ss' @ [Report 100]" by blast
  show "\<forall>b. fst (drive eng (Some c) ss nm w) = Inr b \<longrightarrow>
            last (delivered (snd (drive eng (Some c) ss nm w))) = (c, Stage, 100)"
  proof (intro allI impI)
    fix b
    assume ok: "fst (drive eng (Some c) ss nm w) = Inr b"
    show "last (delivered (snd (drive eng (Some c) ss nm w))) = (c, Stage, 100)"
    proof (cases "ffmpegLoaded w")
      case True
      with ok show ?thesis
        by (simp add: drive_loaded ss script_snoc_report case_prod_beta stage_entry_def
            split: if_splits)
    next
      case False
      show ?thesis
      proof (cases "throws (eng (length (trace w)))")
        case True
        with ok False show ?thesis by (simp add: drive_load_failed)
      next
        case nt: False
        with ok False show ?thesis
          by (simp add: drive_load_ok ss script_snoc_report case_prod_beta stage_entry_def
              split: if_splits)
      qed
    qed
  qed
qed

text \<open>A successful export.\<close>

lemma drive_success:
  assumes "drive eng cb ss nm w = (Inr b, w')"
  shows "\<exists>ops. new_ops w w' = returned (if ffmpegLoaded w then [] else [Load]) @ ops \<and>
           Throw \<notin> set ss \<and> map fst ops = ops_of ss \<and>
           (\<forall>x\<in>set ops. \<not> snd x \<longrightarrow> fst x \<in> set (quiet_ops ss))"
proof -
  have res: "fst (drive eng cb ss nm w) = Inr b" and w': "w' = snd (drive eng cb ss nm w)"
    using assms by simp_all
  from res have nl: "\<not> (\<not> ffmpegLoaded w \<and> throws (eng (length (trace w))))"
    and ok: "fst (steps_part eng cb ss w)"
    by (auto simp: drive_result split: if_splits)
  from ok obtain l n where sp: "steps_part eng cb ss w = script eng cb l n ss"
    using steps_part_cases [of eng cb ss w] by auto
  have lp: "load_part eng w = returned (if ffmpegLoaded w then [] else [Load])"
    using nl by (auto simp: load_part_def)
  show ?thesis
    using script_success [of eng cb l n ss] ok
    unfolding w' drive_ops lp sp by blast
qed

lemma drive_never_throws:
  assumes "\<forall>n. \<not> throws (eng n)" and "Throw \<notin> set ss"
  shows "fst (drive eng cb ss nm w) = Inr (Blob nm)"
    and "new_ops w (snd (drive eng cb ss nm w))
           = returned ((if ffmpegLoaded w then [] else [Load]) @ ops_of ss)"
proof -
  have sp: "fst (steps_part eng cb ss w)"
    "fst (snd (steps_part eng cb ss w)) = returned (ops_of ss)"
    using assms script_never_throws [of eng ss cb] by (simp_all add: steps_part_def)
  show "fst (drive eng cb ss nm w) = Inr (Blob nm)"
    using assms(1) sp(1) by (simp add: drive_result)
  show "new_ops w (snd (drive eng cb ss nm w))
           = returned ((if ffmpegLoaded w then [] else [Load]) @ ops_of ss)"
    using assms(1) sp(2) by (simp add: drive_ops load_part_def)
qed

lemma drive_not_rejected: "fst (drive eng cb ss nm w) \<noteq> Inl NoFrames"
  by (simp add: drive_result)

lemma drive_first_calls:
  assumes "\<forall>n. \<not> throws (eng n)" and "ss = Report p # Call a # Call b # ss'"
  shows "(b, True) \<in> set (new_ops w (snd (drive eng cb ss nm w)))"
  using assms script_first_calls [of eng _ b cb _ p a ss']
  by (simp add: drive_ops steps_part_def)

lemma drive_no_delete_before_read:
  assumes "ss = pre @ Call r # post"
    and "quiet_ops pre = []" and "attempted (returned (ops_of pre)) = []"
    and "\<not> is_delete r"
    and "(r, True) \<notin> set (new_ops w (snd (drive eng cb ss nm w)))"
  shows "attempted (new_ops w (snd (drive eng cb ss nm w))) = []"
proof -
  have lp: "attempted (load_part eng w) = []"
    by (simp add: load_part_def)
  have nr: "(r, True) \<notin> set (fst (snd (steps_part eng cb ss w)))"
    using assms(5) by (simp add: drive_ops)
  have "attempted (fst (snd (steps_part eng cb ss w))) = []"
  proof (cases "steps_part eng cb ss w = (False, [], [])")
    case True
    then show ?thesis by simp
  next
    case False
    then obtain l n where sp: "steps_part eng cb ss w = script eng cb l n ss"
      using steps_part_cases [of eng cb ss w] by auto
    have "(r, True) \<notin> set (fst (snd (script eng cb l n (pre @ Call r # post))))"
      using nr sp unfolding assms(1) by simp
    with assms(2,3,4)
    have "attempted (fst (snd (script eng cb l n (pre @ Call r # post)))) = []"
      by (rule script_no_delete_before)
    then show ?thesis using sp unfolding assms(1) by simp
  qed
  with lp show ?thesis by (simp add: drive_ops)
qed

subsection \<open>Evaluation on concrete inputs\<close>

lemma show_nat_digits:
  "show_nat 0 = ''0''" "show_nat (Suc 0) = ''1''" "show_nat (Suc (Suc 0)) = ''2''"
  by (simp_all add: show_nat.simps)

lemma round100_half: "round100 (1 / 2) = 50"
  unfolding round100_def by (rule floor_unique) simp_all

lemma decodes_examples:
  "decodes ''AAAA''" "decodes ''AAAB''" "decodes ''AAAC''"
  "strip_data_url ''AAAA'' = ''AAAA''" "strip_data_url ''AAAB'' = ''AAAB''"
  "strip_data_url ''AAAC'' = ''AAAC''"
  by (simp_all add: decodes_def atob_ok_def strip_data_url_def strip_padding_def
      ascii_whitespace_def base64_char_def)

lemma data_url_examples:
  "strip_data_url ''data:image/png;base64,AAAA'' = ''AAAA''"
  "decodes ''data:image/png;base64,AAAA''"
  "strip_data_url ''https://cdn.example/a.png'' = ''https://cdn.example/a.png''"
  "\<not> decodes ''https://cdn.example/a.png''"
  by (simp_all add: decodes_def atob_ok_def strip_data_url_def strip_padding_def
      ascii_whitespace_def base64_char_def word_char_def)

lemmas export_simps =
  exportVideoSimple_def exportVideoWithFrames_def initFFmpeg_def call_eq report_eq run_script
  stage_entry_def engine_entries_def round100_half
  fresh_world_def quiet_engine_def throw_at_def emit_at_def


lemmas steps_simps =
  simple_steps_def frames_steps_def simple_commands_def segments_def delete_images_def
  filterParts_def concatInputs_def inputArgs_def
  img_name_def frame_name_def seg_img_name_def seg_v_name_def show_nat_digits
  base_config_def config_simps decodes_examples

lemma negative_simple_steps:
  "simple_steps negative_config =
     [Report 15,
      Call (FetchFile ''blob:video''),
      Call (WriteFile ''input.mp4'' (VideoData ''blob:video'')),
      Report 25,
      Call (Exec Probe),
      Report 30,
      Call (WriteFile ''img_0.jpg'' (ImageBytes ''AAAA'')),
      Report 40,
      Call (Exec (ImageSegment ''img_0.jpg'' 2 1280 720 ''seg_img0.mp4'')),
      Call (Exec (FinalSegment (- 1) (Some 11) ''seg_final.mp4'')),
      Report 70,
      Call (WriteFile ''concat.txt'' (ConcatList [''seg_img0.mp4'', ''seg_final.mp4''])),
      Call (Exec (ConcatCmd ''concat.txt'' ''itgen_video.mp4'')),
      Report 90,
      Call (ReadFile ''itgen_video.mp4''),
      Call (DeleteFile ''input.mp4''),
      Call (DeleteFile ''concat.txt''),
      Call (DeleteFile ''img_0.jpg''),
      Quiet (DeleteFile ''seg_img0.mp4''),
      Quiet (DeleteFile ''seg_final.mp4''),
      Call (DeleteFile ''itgen_video.mp4''),
      Report 100]"
  by (simp add: steps_simps negative_config_def negative_frame_def)

lemma negative_frames_steps:
  "frames_steps negative_config =
     [Report 10,
      Call (FetchFile ''blob:video''),
      Call (WriteFile ''input.mp4'' (VideoData ''blob:video'')),
      Report 20,
      Call (WriteFile ''frame_0.jpg'' (ImageBytes ''AAAA'')),
      Report 30,
      Call (Exec Probe),
      Report 40,
      Report 50,
      Call (Exec (FilterComplex [''input.mp4'', ''frame_0.jpg'']
             [Scale 0 1280 720, Silence 0 2, Loop 0 60 2,
              VTrim (- 1) None FinalL, ATrim (- 1) None FinalL,
              ConcatF [ImgL 0, FinalL] 2]
             ''itgen_video.mp4'')),
      Report 90,
      Call (ReadFile ''itgen_video.mp4''),
      Call (DeleteFile ''input.mp4''),
      Call (DeleteFile ''frame_0.jpg''),
      Call (DeleteFile ''itgen_video.mp4''),
      Report 100]"
  by (simp add: steps_simps negative_config_def negative_frame_def)

lemma single_simple_steps:
  "simple_steps single_config =
     [Report 15,
      Call (FetchFile ''blob:video''),
      Call (WriteFile ''input.mp4'' (VideoData ''blob:video'')),
      Report 25,
      Call (Exec Probe),
      Report 30,
      Call (WriteFile ''img_0.jpg'' (ImageBytes ''AAAA'')),
      Report 40,
      Call (Exec (ImageSegment ''img_0.jpg'' 2 1280 720 ''seg_img0.mp4'')),
      Call (Exec (FinalSegment 0 None ''seg_final.mp4'')),
      Report 70,
      Call (WriteFile ''concat.txt'' (ConcatList [''seg_img0.mp4'', ''seg_final.mp4''])),
      Call (Exec (ConcatCmd ''concat.txt'' ''itgen_video.mp4'')),
      Report 90,
      Call (ReadFile ''itgen_video.mp4''),
      Call (DeleteFile ''input.mp4''),
      Call (DeleteFile ''concat.txt''),
      Call (DeleteFile ''img_0.jpg''),
      Quiet (DeleteFile ''seg_img0.mp4''),
      Quiet (DeleteFile ''seg_final.mp4''),
      Call (DeleteFile ''itgen_video.mp4''),
      Report 100]"
  by (simp add: steps_simps single_config_def single_frame_def)

lemma single_frames_steps:
  "frames_steps single_config =
     [Report 10,
      Call (FetchFile ''blob:video''),
      Call (WriteFile ''input.mp4'' (VideoData ''blob:video'')),
      Report 20,
      Call (WriteFile ''frame_0.jpg'' (ImageBytes ''AAAA'')),
      Report 30,
      Call (Exec Probe),
      Report 40,
      Report 50,
      Call (Exec (FilterComplex [''input.mp4'', ''frame_0.jpg'']
             [Scale 0 1280 720, Silence 0 2, Loop 0 60 2,
              VTrim 0 None FinalL, ATrim 0 None FinalL,
              ConcatF [ImgL 0, FinalL] 2]
             ''itgen_video.mp4'')),
      Report 90,
      Call (ReadFile ''itgen_video.mp4''),
      Call (DeleteFile ''input.mp4''),
      Call (DeleteFile ''frame_0.jpg''),
      Call (DeleteFile ''itgen_video.mp4''),
      Report 100]"
  by (simp add: steps_simps single_config_def single_frame_def)

lemma concrete_configs:
  "frames negative_config = [negative_frame]"
  "out_name negative_config = ''itgen_video.mp4''"
  "frames single_config = [single_frame]"
  "out_name single_config = ''itgen_video.mp4''"
  by (simp_all add: negative_config_def single_config_def base_config_def out_name_def
      default_to_def)

subsection \<open>File names\<close>

lemma digit_char: "n < 10 \<Longrightarrow> of_char (''0123456789'' ! n) - 48 = (n::nat)"
proof -
  assume "n < 10"
  then have "n \<in> {0, 1, 2, 3, 4, 5, 6, 7, 8, 9}" by auto
  then show ?thesis by auto
qed

lemma read_nat_snoc: "read_nat (s @ [c]) = 10 * read_nat s + (of_char c - 48)"
  by (simp add: read_nat_def)

lemma read_nat_show_nat: "read_nat (show_nat n) = n"
proof (induction n rule: show_nat.induct)
  case (1 n)
  show ?case
  proof (cases "n < 10")
    case True
    have "show_nat n = [''0123456789'' ! n]"
      using True by (subst show_nat.simps) simp
    then show ?thesis
      using digit_char [OF True] read_nat_snoc [of "[]"] by (simp add: read_nat_def)
  next
    case False
    have s: "show_nat n = show_nat (n div 10) @ [''0123456789'' ! (n mod 10)]"
      using False by (subst show_nat.simps) simp
    have "n mod 10 < 10" by simp
    then have "of_char (''0123456789'' ! (n mod 10)) - 48 = n mod 10"
      by (rule digit_char)
    then show ?thesis
      using 1 [OF False] by (simp add: s read_nat_snoc)
  qed
qed

lemma show_nat_inj [simp]: "show_nat i = show_nat j \<longleftrightarrow> i = j"
  by (metis read_nat_show_nat)

lemma names_inj [simp]:
  "img_name i = img_name j \<longleftrightarrow> i = j"
  "frame_name i = frame_name j \<longleftrightarrow> i = j"
  "seg_v_name i = seg_v_name j \<longleftrightarrow> i = j"
  "seg_img_name i = seg_img_name j \<longleftrightarrow> i = j"
  by (simp_all add: img_name_def frame_name_def seg_v_name_def seg_img_name_def)

lemma names_distinct [simp]:
  "seg_v_name i \<noteq> seg_img_name j"
  "seg_v_name i \<noteq> ''seg_final.mp4''" "seg_img_name i \<noteq> ''seg_final.mp4''"
  "seg_v_name i \<noteq> ''input.mp4''" "seg_img_name i \<noteq> ''input.mp4''"
  "seg_v_name i \<noteq> ''concat.txt''" "seg_img_name i \<noteq> ''concat.txt''"
  "seg_v_name i \<noteq> img_name j" "seg_img_name i \<noteq> img_name j"
  "img_name i \<noteq> ''input.mp4''" "frame_name i \<noteq> ''input.mp4''"
  "img_name i \<noteq> ''seg_final.mp4''"
  by (simp_all add: img_name_def frame_name_def seg_v_name_def seg_img_name_def)

lemmas names_distinct_sym [simp] = names_distinct [THEN not_sym]

subsection \<open>The files after the calls of an export\<close>

lemma fold_exec_other:
  "name \<notin> set (concat (map output_of cs)) \<Longrightarrow> fold exec cs fs name = fs name"
  by (induction cs arbitrary: fs) (simp_all add: exec_def)

lemma exec_Probe: "exec Probe fs = fs"
  by (simp add: exec_def)

lemma fold_effect_exec:
  "fold effect (ops_of (map (\<lambda>c. Call (Exec c)) cs)) fs = fold exec cs fs"
  by (induction cs arbitrary: fs) simp_all

lemma write_images_other:
  "\<forall>k<length frs. nm \<noteq> name (i + k) \<Longrightarrow>
     fold effect (ops_of (write_images name i frs)) fs nm = fs nm"
proof (induction frs arbitrary: i fs)
  case Nil
  then show ?case by simp
next
  case (Cons f frs)
  have "\<forall>k<length frs. nm \<noteq> name (Suc i + k)"
    using Cons.prems by auto
  then have rest: "fold effect (ops_of (write_images name (Suc i) frs)) fs' nm = fs' nm" for fs'
    by (rule Cons.IH)
  have "nm \<noteq> name i"
    using Cons.prems by fastforce
  then show ?case
    by (simp add: rest)
qed

lemma write_images_image:
  assumes inj: "\<And>a b. name a = name b \<Longrightarrow> a = b"
  shows "list_all (\<lambda>f. decodes (imageData f)) frs \<Longrightarrow> k < length frs \<Longrightarrow>
     fold effect (ops_of (write_images name i frs)) fs (name (i + k))
       = Some (Image (strip_data_url (imageData (frs ! k))))"
proof (induction frs arbitrary: i k fs)
  case Nil
  then show ?case by simp
next
  case (Cons f frs)
  show ?case
  proof (cases k)
    case 0
    have "\<forall>j<length frs. name i \<noteq> name (Suc i + j)"
      using inj by fastforce
    then have "fold effect (ops_of (write_images name (Suc i) frs)) fs' (name i) = fs' (name i)"
      for fs'
      by (rule write_images_other)
    then show ?thesis
      using Cons.prems by (simp add: 0)
  next
    case (Suc k')
    with Cons.prems have "list_all (\<lambda>f. decodes (imageData f)) frs" and "k' < length frs"
      by simp_all
    then have "fold effect (ops_of (write_images name (Suc i) frs)) fs' (name (Suc i + k'))
       = Some (Image (strip_data_url (imageData (frs ! k'))))" for fs'
      by (rule Cons.IH)
    then show ?thesis
      using Cons.prems by (simp add: Suc)
  qed
qed

lemma write_images_no_read:
  "\<forall>op\<in>set (ops_of (write_images name i frs)). \<not> is_read op"
  by (induction frs arbitrary: i) simp_all

lemma exec_all_no_read:
  "\<forall>op\<in>set (ops_of (map (\<lambda>c. Call (Exec c)) cs)). \<not> is_read op"
  by (induction cs) simp_all

text \<open>The segment loop of \<^verbatim>\<open>exportVideoSimple\<close>: its output names carry indices from \<open>i\<close>
  on, so no segment is overwritten, and each holds the clip the loop meant.\<close>

lemma segment_loop_outputs:
  "nm \<in> set (concat (map output_of (fst (segment_loop config i l frs)))) \<Longrightarrow>
     \<exists>j\<ge>i. nm = seg_v_name j \<or> nm = seg_img_name j"
proof (induction frs arbitrary: i l)
  case Nil
  then show ?case by simp
next
  case (Cons f frs)
  from Cons.prems consider
      "nm = seg_v_name i" | "nm = seg_img_name i"
    | "nm \<in> set (concat (map output_of (fst (segment_loop config (Suc i) (timestamp f) frs))))"
    by (auto simp: Let_def case_prod_beta split: if_splits)
  then show ?case
  proof cases
    case 1
    then show ?thesis by blast
  next
    case 2
    then show ?thesis by blast
  next
    case 3
    then obtain j where "j \<ge> Suc i" "nm = seg_v_name j \<or> nm = seg_img_name j"
      using Cons.IH by blast
    then show ?thesis by (metis Suc_leD)
  qed
qed

lemma segment_loop_movie:
  assumes "fs ''input.mp4'' = Some (Video (videoUrl config))"
    and "\<forall>k<length frs.
           fs (img_name (i + k)) = Some (Image (strip_data_url (imageData (frs ! k))))"
    and "\<forall>j\<ge>i. seg_v_name j \<notin> set (concat (map output_of rest)) \<and>
                seg_img_name j \<notin> set (concat (map output_of rest))"
  shows "concat (map (movie_of (fold exec (fst (segment_loop config i l frs) @ rest) fs))
           (concat (map output_of (fst (segment_loop config i l frs)))))
         = clip_list config l frs"
  using assms
proof (induction frs arbitrary: i l fs)
  case Nil
  then show ?case by simp
next
  case (Cons f frs)
  let ?cut = "CutSegment l (timestamp f - l) (seg_v_name i)"
  let ?img = "ImageSegment (img_name i) (frameDuration config f)
                (targetWidth config) (targetHeight config) (seg_img_name i)"
  let ?more = "fst (segment_loop config (Suc i) (timestamp f) frs)"
  let ?pre = "if timestamp f > l then [?cut] else []"
  let ?fs1 = "fold exec ?pre fs"
  let ?fs2 = "exec ?img ?fs1"
  let ?F = "fold exec (?more @ rest) ?fs2"
  have loop: "fst (segment_loop config i l (f # frs)) = ?pre @ ?img # ?more"
    by (simp add: Let_def case_prod_beta)
  have F: "fold exec (fst (segment_loop config i l (f # frs)) @ rest) fs = ?F"
    unfolding loop by simp
  have img0: "fs (img_name i) = Some (Image (strip_data_url (imageData f)))"
    using Cons.prems(2) by fastforce
  have input2: "?fs2 ''input.mp4'' = Some (Video (videoUrl config))"
    using Cons.prems(1) by (simp add: exec_def)
  have imgs2: "\<forall>k<length frs.
      ?fs2 (img_name (Suc i + k)) = Some (Image (strip_data_url (imageData (frs ! k))))"
  proof (intro allI impI)
    fix k
    assume "k < length frs"
    then have "fs (img_name (i + Suc k)) = Some (Image (strip_data_url (imageData ((f # frs) ! Suc k))))"
      using Cons.prems(2) by (metis length_Cons Suc_less_eq)
    then show "?fs2 (img_name (Suc i + k)) = Some (Image (strip_data_url (imageData (frs ! k))))"
      by (simp add: exec_def)
  qed
  have rest2: "\<forall>j\<ge>Suc i. seg_v_name j \<notin> set (concat (map output_of rest)) \<and>
                seg_img_name j \<notin> set (concat (map output_of rest))"
    using Cons.prems(3) by (metis Suc_leD)
  have IH: "concat (map (movie_of ?F) (concat (map output_of ?more)))
              = clip_list config (timestamp f) frs"
    using input2 imgs2 rest2 by (rule Cons.IH)
  have more_v: "seg_v_name i \<notin> set (concat (map output_of ?more))"
  proof
    assume "seg_v_name i \<in> set (concat (map output_of ?more))"
    then obtain j where "j \<ge> Suc i" "seg_v_name i = seg_v_name j \<or> seg_v_name i = seg_img_name j"
      using segment_loop_outputs by blast
    then show False by simp
  qed
  have more_img: "seg_img_name i \<notin> set (concat (map output_of ?more))"
  proof
    assume "seg_img_name i \<in> set (concat (map output_of ?more))"
    then obtain j where "j \<ge> Suc i"
      "seg_img_name i = seg_v_name j \<or> seg_img_name i = seg_img_name j"
      using segment_loop_outputs by blast
    then show False by simp
  qed
  have later: "seg_v_name i \<notin> set (concat (map output_of (?more @ rest)))"
    "seg_img_name i \<notin> set (concat (map output_of (?more @ rest)))"
    using Cons.prems(3) more_v more_img by simp_all
  have img1: "?fs1 (img_name i) = Some (Image (strip_data_url (imageData f)))"
    using img0 by (simp add: exec_def)
  have "?F (seg_img_name i) = ?fs2 (seg_img_name i)"
    using later(2) by (rule fold_exec_other)
  also have "\<dots> = Some (Movie (made ?fs1 ?img))"
    by (simp add: exec_def)
  also have "made ?fs1 ?img = [still_of config f]"
    using img1 by (simp add: image_of_def still_of_def)
  finally have still: "movie_of ?F (seg_img_name i) = [still_of config f]"
    by (simp add: movie_of_def)
  have cut: "movie_of ?F (seg_v_name i) = [SourceClip (videoUrl config) l (Some (timestamp f))]"
    if "timestamp f > l"
  proof -
    have "?F (seg_v_name i) = ?fs2 (seg_v_name i)"
      using later(1) by (rule fold_exec_other)
    also have "\<dots> = ?fs1 (seg_v_name i)"
      by (simp add: exec_def)
    also have "\<dots> = Some (Movie (made fs ?cut))"
      using that by (simp add: exec_def)
    also have "made fs ?cut = [SourceClip (videoUrl config) l (Some (timestamp f))]"
      using Cons.prems(1) by (simp add: video_of_def)
    finally show ?thesis
      by (simp add: movie_of_def)
  qed
  show ?case
    unfolding F unfolding loop using IH still cut by simp
qed

lemma segment_loop_keeps:
  assumes "\<And>j. nm \<noteq> seg_v_name j" and "\<And>j. nm \<noteq> seg_img_name j"
  shows "fold exec (fst (segment_loop config i l frs)) fs nm = fs nm"
proof (rule fold_exec_other)
  show "nm \<notin> set (concat (map output_of (fst (segment_loop config i l frs))))"
    using assms segment_loop_outputs by blast
qed

lemma final_segment_outputs:
  "set (concat (map output_of (final_segment config l))) \<subseteq> {''seg_final.mp4''}"
  by (simp add: final_segment_def)

lemma final_segment_movie:
  assumes "fs ''input.mp4'' = Some (Video (videoUrl config))"
  shows "concat (map (movie_of (fold exec (final_segment config l) fs))
           (concat (map output_of (final_segment config l)))) = final_clip config l"
  using assms
  by (auto simp: final_segment_def final_clip_def exec_def movie_of_def video_of_def js_not_def
      split: option.splits)

lemma simple_commands_movie:
  assumes "fs ''input.mp4'' = Some (Video (videoUrl config))"
    and "\<forall>k<length (sortedFrames config).
           fs (img_name k) = Some (Image (strip_data_url (imageData (sortedFrames config ! k))))"
  shows "concat (map (movie_of (fold exec (simple_commands config) fs)) (segments config))
         = clip_list config 0 (sortedFrames config)
           @ final_clip config (cursor 0 (sortedFrames config))"
proof -
  let ?loop = "fst (segment_loop config 0 0 (sortedFrames config))"
  let ?final = "final_segment config (cursor 0 (sortedFrames config))"
  let ?F = "fold exec (?loop @ ?final) fs"
  have cmds: "simple_commands config = ?loop @ ?final"
    by (simp add: simple_commands_def case_prod_beta segment_loop_cursor)
  have segs: "segments config = concat (map output_of ?loop) @ concat (map output_of ?final)"
    by (simp add: segments_def cmds)
  have rest: "\<forall>j\<ge>0. seg_v_name j \<notin> set (concat (map output_of ?final)) \<and>
                seg_img_name j \<notin> set (concat (map output_of ?final))"
    using final_segment_outputs [of config "cursor 0 (sortedFrames config)"] by auto
  have imgs: "\<forall>k<length (sortedFrames config).
      fs (img_name (0 + k)) = Some (Image (strip_data_url (imageData (sortedFrames config ! k))))"
    using assms(2) by simp
  have a: "concat (map (movie_of ?F) (concat (map output_of ?loop)))
             = clip_list config 0 (sortedFrames config)"
    using assms(1) imgs rest by (rule segment_loop_movie)
  have "fold exec ?loop fs ''input.mp4'' = fs ''input.mp4''"
    by (rule segment_loop_keeps) simp_all
  then have "fold exec ?loop fs ''input.mp4'' = Some (Video (videoUrl config))"
    using assms(1) by simp
  then have "concat (map (movie_of (fold exec ?final (fold exec ?loop fs)))
           (concat (map output_of ?final))) = final_clip config (cursor 0 (sortedFrames config))"
    by (rule final_segment_movie)
  then have b: "concat (map (movie_of ?F) (concat (map output_of ?final)))
             = final_clip config (cursor 0 (sortedFrames config))"
    by simp
  show ?thesis
    unfolding cmds segs using a b by simp
qed

lemma segments_names:
  "nm \<in> set (segments config) \<Longrightarrow>
     nm = ''seg_final.mp4'' \<or> (\<exists>j. nm = seg_v_name j \<or> nm = seg_img_name j)"
  using segment_loop_outputs [of nm config 0 0 "sortedFrames config"]
    final_segment_outputs [of config "snd (segment_loop config 0 0 (sortedFrames config))"]
  by (auto simp: segments_def simple_commands_def case_prod_beta)

text \<open>The steps of \<^verbatim>\<open>exportVideoSimple\<close> up to the read of the output, and the movie the
  output file then holds, whatever the engine held before.\<close>

lemma simple_steps_movie:
  "\<exists>pre post. simple_steps config = pre @ Call (ReadFile (out_name config)) # post \<and>
      quiet_ops pre = [] \<and> (\<forall>op\<in>set (ops_of pre). \<not> is_read op) \<and>
      (decodable config \<longrightarrow>
         (\<forall>fs. fold effect (ops_of pre) fs (out_name config) =
            Some (Movie (clip_list config 0 (sortedFrames config)
                         @ final_clip config (cursor 0 (sortedFrames config))))))"
proof -
  let ?W = "write_images img_name 0 (sortedFrames config)"
  let ?X = "map (\<lambda>c. Call (Exec c)) (simple_commands config)"
  let ?pre = "[Report 15,
      Call (FetchFile (videoUrl config)),
      Call (WriteFile ''input.mp4'' (VideoData (videoUrl config))),
      Report 25,
      Call (Exec Probe),
      Report 30]
     @ ?W
     @ [Report 40]
     @ ?X
     @ [Report 70,
        Call (WriteFile ''concat.txt'' (ConcatList (segments config))),
        Call (Exec (ConcatCmd ''concat.txt'' (out_name config))),
        Report 90]"
  let ?post = "[Call (DeleteFile ''input.mp4''),
        Call (DeleteFile ''concat.txt'')]
     @ delete_images img_name (length (sortedFrames config))
     @ map (\<lambda>s. Quiet (DeleteFile s)) (segments config)
     @ [Call (DeleteFile (out_name config)),
        Report 100]"
  have split: "simple_steps config = ?pre @ Call (ReadFile (out_name config)) # ?post"
    by (simp add: simple_steps_def)
  have quiet: "quiet_ops ?pre = []"
    by (simp add: write_images_ops exec_all_ops)
  have reads: "\<forall>op\<in>set (ops_of ?pre). \<not> is_read op"
    using write_images_no_read [of img_name 0 "sortedFrames config"]
      exec_all_no_read [of "simple_commands config"]
    by auto
  have movie: "fold effect (ops_of ?pre) fs (out_name config) =
            Some (Movie (clip_list config 0 (sortedFrames config)
                         @ final_clip config (cursor 0 (sortedFrames config))))"
    if dec: "decodable config" for fs
  proof -
    let ?fs1 = "fs(''input.mp4'' \<mapsto> Video (videoUrl config))"
    let ?fs2 = "fold effect (ops_of ?W) ?fs1"
    let ?fs3 = "fold exec (simple_commands config) ?fs2"
    let ?fs4 = "?fs3(''concat.txt'' \<mapsto> Listing (segments config))"
    have all: "list_all (\<lambda>f. decodes (imageData f)) (sortedFrames config)"
      using dec by (simp add: decodable_sorted)
    have input2: "?fs2 ''input.mp4'' = Some (Video (videoUrl config))"
      by (subst write_images_other) simp_all
    have imgs2: "\<forall>k<length (sortedFrames config).
        ?fs2 (img_name k) = Some (Image (strip_data_url (imageData (sortedFrames config ! k))))"
    proof (intro allI impI)
      fix k
      assume k: "k < length (sortedFrames config)"
      have "?fs2 (img_name (0 + k))
              = Some (Image (strip_data_url (imageData (sortedFrames config ! k))))"
        using _ all k by (rule write_images_image) simp
      then show "?fs2 (img_name k)
              = Some (Image (strip_data_url (imageData (sortedFrames config ! k))))"
        by simp
    qed
    have clips: "concat (map (movie_of ?fs3) (segments config))
         = clip_list config 0 (sortedFrames config)
           @ final_clip config (cursor 0 (sortedFrames config))"
      using input2 imgs2 by (rule simple_commands_movie)
    have "movie_of ?fs4 nm = movie_of ?fs3 nm" if "nm \<in> set (segments config)" for nm
      using segments_names [OF that] by (auto simp: movie_of_def)
    then have same: "map (movie_of ?fs4) (segments config) = map (movie_of ?fs3) (segments config)"
      by simp
    have "fold effect (ops_of ?pre) fs = exec (ConcatCmd ''concat.txt'' (out_name config)) ?fs4"
      by (simp add: fold_effect_exec exec_Probe)
    then have "fold effect (ops_of ?pre) fs (out_name config)
          = Some (Movie (made ?fs4 (ConcatCmd ''concat.txt'' (out_name config))))"
      by (simp add: exec_def)
    also have "made ?fs4 (ConcatCmd ''concat.txt'' (out_name config))
          = concat (map (movie_of ?fs4) (segments config))"
      by (simp add: listing_of_def)
    finally show ?thesis
      by (simp add: same clips)
  qed
  show ?thesis
    using split quiet reads movie by blast
qed

text \<open>The filter graph of \<^verbatim>\<open>exportVideoWithFrames\<close>.\<close>

lemma concat_of_filter_loop:
  "filter_loop config i l s frs = (parts, inputs, final, s') \<Longrightarrow>
     concat_of (parts @ qs) = concat_of qs"
  by (induction frs arbitrary: i l s parts inputs final s')
     (auto simp: Let_def split: prod.splits if_splits)

lemma filter_loop_clips:
  assumes "input_at ins 0 = [''input.mp4'']"
    and "video_of fs ''input.mp4'' = [videoUrl config]"
  shows "fresh i s P \<Longrightarrow>
   filter_loop config i l s frs = (parts, inputs, final, s') \<Longrightarrow>
   \<forall>k<length frs. \<exists>name. input_at ins (Suc (i + k)) = [name] \<and>
       image_of fs name = [strip_data_url (imageData (frs ! k))] \<Longrightarrow>
   concat (map (stream_clip fs ins (P @ parts @ Q)) inputs) = clip_list config l frs"
proof (induction frs arbitrary: i l s P parts inputs final s')
  case Nil
  then show ?case by simp
next
  case (Cons f frs)
  obtain parts' inputs' final' s2 where rest:
    "filter_loop config (Suc i) (timestamp f)
       (Suc (if timestamp f > l then Suc s else s)) frs = (parts', inputs', final', s2)"
    by (metis prod_cases4)
  let ?p1 = "if timestamp f > l
             then [VTrim l (Some (timestamp f)) (SrcL s), ATrim l (Some (timestamp f)) (SrcL s)]
             else []"
  let ?p2 = "[Scale i (targetWidth config) (targetHeight config),
              Silence i (frameDuration config f),
              Loop i \<lceil>frameDuration config f * 30\<rceil> (frameDuration config f)]"
  have parts: "parts = ?p1 @ ?p2 @ parts'"
    and inputs: "inputs = (if timestamp f > l then [SrcL s] else []) @ ImgL i # inputs'"
    using Cons.prems(2) rest by (simp_all add: Let_def)
  have fr: "fresh (Suc i) (Suc (if timestamp f > l then Suc s else s)) (P @ ?p1 @ ?p2)"
    using Cons.prems(1) by (auto simp: fresh_def trim_of_append scale_of_append loop_of_append)
  have imgs: "\<forall>k<length frs. \<exists>name. input_at ins (Suc (Suc i + k)) = [name] \<and>
       image_of fs name = [strip_data_url (imageData (frs ! k))]"
  proof (intro allI impI)
    fix k
    assume "k < length frs"
    then have "Suc k < length (f # frs)" by simp
    with Cons.prems(3) obtain name where "input_at ins (Suc (i + Suc k)) = [name]"
      "image_of fs name = [strip_data_url (imageData ((f # frs) ! Suc k))]"
      by blast
    then show "\<exists>name. input_at ins (Suc (Suc i + k)) = [name] \<and>
       image_of fs name = [strip_data_url (imageData (frs ! k))]"
      by simp
  qed
  have IH: "concat (map (stream_clip fs ins ((P @ ?p1 @ ?p2) @ parts' @ Q)) inputs')
              = clip_list config (timestamp f) frs"
    by (rule Cons.IH [OF fr rest imgs])
  obtain name where name: "input_at ins (Suc i) = [name]"
    "image_of fs name = [strip_data_url (imageData f)]"
    using Cons.prems(3) by fastforce
  have img: "stream_clip fs ins (P @ parts @ Q) (ImgL i) = [still_of config f]"
    using Cons.prems(1) name
    by (auto simp: parts fresh_def trim_of_append scale_of_append loop_of_append still_of_def)
  have src: "timestamp f > l \<Longrightarrow>
     stream_clip fs ins (P @ parts @ Q) (SrcL s)
       = [SourceClip (videoUrl config) l (Some (timestamp f))]"
    using Cons.prems(1) assms
    by (auto simp: parts fresh_def trim_of_append)
  show ?case
    using IH img src by (simp add: inputs) (simp add: parts)
qed

lemma inputArgs_at:
  "input_at (inputArgs config) 0 = [''input.mp4'']"
  "k < length (sortedFrames config) \<Longrightarrow> input_at (inputArgs config) (Suc k) = [frame_name k]"
  by (simp_all add: input_at_def inputArgs_def)

lemma filter_graph_movie:
  assumes "fs ''input.mp4'' = Some (Video (videoUrl config))"
    and "\<forall>k<length (sortedFrames config).
           fs (frame_name k) = Some (Image (strip_data_url (imageData (sortedFrames config ! k))))"
  shows "made fs (FilterComplex (inputArgs config) (filterParts config) nm)
         = clip_list config 0 (sortedFrames config)
           @ [SourceClip (videoUrl config) (cursor 0 (sortedFrames config)) None]"
proof -
  obtain parts inputs final s' where fl:
    "filter_loop config 0 0 0 (sortedFrames config) = (parts, inputs, final, s')"
    by (metis prod_cases4)
  let ?Q = "[VTrim final None FinalL, ATrim final None FinalL,
             ConcatF (inputs @ [FinalL]) (Suc (length inputs))]"
  have ci: "concatInputs config = inputs @ [FinalL]"
    by (simp add: concatInputs_def fl)
  have fp: "filterParts config = parts @ ?Q"
    by (simp add: filterParts_def fl ci)
  have co: "concat_of (filterParts config) = inputs @ [FinalL]"
    unfolding fp by (simp add: concat_of_filter_loop [OF fl])
  have video: "video_of fs ''input.mp4'' = [videoUrl config]"
    using assms(1) by (simp add: video_of_def)
  have imgs: "\<forall>k<length (sortedFrames config).
      \<exists>name. input_at (inputArgs config) (Suc (0 + k)) = [name] \<and>
        image_of fs name = [strip_data_url (imageData (sortedFrames config ! k))]"
    using assms(2) by (simp add: inputArgs_at image_of_def)
  have "fresh 0 0 []" by (simp add: fresh_def)
  from filter_loop_clips [OF inputArgs_at(1) video this fl imgs, of ?Q]
  have a: "concat (map (stream_clip fs (inputArgs config) (filterParts config)) inputs)
             = clip_list config 0 (sortedFrames config)"
    by (simp add: fp)
  have "final = cursor 0 (sortedFrames config)"
    using fl by (rule filter_loop_cursor)
  moreover have "trim_of FinalL parts = []"
    using fl by (rule filter_loop_no_final)
  ultimately have b: "stream_clip fs (inputArgs config) (filterParts config) FinalL
      = [SourceClip (videoUrl config) (cursor 0 (sortedFrames config)) None]"
    using video by (simp add: fp trim_of_append inputArgs_at)
  show ?thesis
    using a b by (simp add: co)
qed

lemma frames_steps_movie:
  "\<exists>pre post. frames_steps config = pre @ Call (ReadFile (out_name config)) # post \<and>
      quiet_ops pre = [] \<and> (\<forall>op\<in>set (ops_of pre). \<not> is_read op) \<and>
      (decodable config \<longrightarrow>
         (\<forall>fs. fold effect (ops_of pre) fs (out_name config) =
            Some (Movie (clip_list config 0 (sortedFrames config)
                         @ [SourceClip (videoUrl config) (cursor 0 (sortedFrames config)) None]))))"
proof -
  let ?W = "write_images frame_name 0 (sortedFrames config)"
  let ?G = "FilterComplex (inputArgs config) (filterParts config) (out_name config)"
  let ?pre = "[Report 10,
      Call (FetchFile (videoUrl config)),
      Call (WriteFile ''input.mp4'' (VideoData (videoUrl config))),
      Report 20]
     @ ?W
     @ [Report 30,
        Call (Exec Probe),
        Report 40,
        Report 50,
        Call (Exec ?G),
        Report 90]"
  let ?post = "[Call (DeleteFile ''input.mp4'')]
     @ delete_images frame_name (length (sortedFrames config))
     @ [Call (DeleteFile (out_name config)),
        Report 100]"
  have split: "frames_steps config = ?pre @ Call (ReadFile (out_name config)) # ?post"
    by (simp add: frames_steps_def)
  have quiet: "quiet_ops ?pre = []"
    by (simp add: write_images_ops)
  have reads: "\<forall>op\<in>set (ops_of ?pre). \<not> is_read op"
    using write_images_no_read [of frame_name 0 "sortedFrames config"]
    by auto
  have movie: "fold effect (ops_of ?pre) fs (out_name config) =
            Some (Movie (clip_list config 0 (sortedFrames config)
                         @ [SourceClip (videoUrl config) (cursor 0 (sortedFrames config)) None]))"
    if dec: "decodable config" for fs
  proof -
    let ?fs1 = "fs(''input.mp4'' \<mapsto> Video (videoUrl config))"
    let ?fs2 = "fold effect (ops_of ?W) ?fs1"
    have all: "list_all (\<lambda>f. decodes (imageData f)) (sortedFrames config)"
      using dec by (simp add: decodable_sorted)
    have input2: "?fs2 ''input.mp4'' = Some (Video (videoUrl config))"
      by (subst write_images_other) simp_all
    have imgs2: "\<forall>k<length (sortedFrames config).
        ?fs2 (frame_name k) = Some (Image (strip_data_url (imageData (sortedFrames config ! k))))"
    proof (intro allI impI)
      fix k
      assume k: "k < length (sortedFrames config)"
      have "?fs2 (frame_name (0 + k))
              = Some (Image (strip_data_url (imageData (sortedFrames config ! k))))"
        using _ all k by (rule write_images_image) simp
      then show "?fs2 (frame_name k)
              = Some (Image (strip_data_url (imageData (sortedFrames config ! k))))"
        by simp
    qed
    have "fold effect (ops_of ?pre) fs = exec ?G ?fs2"
      by (simp add: exec_Probe)
    then have "fold effect (ops_of ?pre) fs (out_name config) = Some (Movie (made ?fs2 ?G))"
      by (simp add: exec_def)
    also have "made ?fs2 ?G = clip_list config 0 (sortedFrames config)
           @ [SourceClip (videoUrl config) (cursor 0 (sortedFrames config)) None]"
      using input2 imgs2 by (rule filter_graph_movie)
    finally show ?thesis .
  qed
  show ?thesis
    using split quiet reads movie by blast
qed

subsection \<open>The movie of a successful export\<close>

lemma read_back_returned:
  "\<forall>op\<in>set A. \<not> is_read op \<Longrightarrow>
     read_back (returned A @ (ReadFile name, True) # rest) fs = fold effect A fs name"
proof (induction A arbitrary: fs)
  case Nil
  then show ?case by simp
next
  case (Cons op A)
  then show ?case by (cases op) simp_all
qed

lemma script_read_prefix:
  "fst (script eng cb l n (pre @ Call r # post)) \<Longrightarrow> quiet_ops pre = [] \<Longrightarrow>
     \<exists>rest. fst (snd (script eng cb l n (pre @ Call r # post)))
             = returned (ops_of pre) @ (r, True) # rest"
proof (induction pre arbitrary: n)
  case Nil
  then show ?case by (simp add: case_prod_beta split: if_splits)
next
  case (Cons s pre)
  then show ?case
    by (cases s) (auto simp: case_prod_beta split: if_splits)
qed

lemma drive_read_prefix:
  assumes "fst (drive eng cb ss nm w) = Inr b"
    and "ss = pre @ Call r # post" and "quiet_ops pre = []"
  shows "\<exists>rest. new_ops w (snd (drive eng cb ss nm w))
           = returned ((if ffmpegLoaded w then [] else [Load]) @ ops_of pre) @ (r, True) # rest"
proof -
  from assms(1) have nl: "\<not> (\<not> ffmpegLoaded w \<and> throws (eng (length (trace w))))"
    and ok: "fst (steps_part eng cb ss w)"
    by (auto simp: drive_result split: if_splits)
  from ok obtain l n where sp: "steps_part eng cb ss w = script eng cb l n ss"
    using steps_part_cases [of eng cb ss w] by auto
  have lp: "load_part eng w = returned (if ffmpegLoaded w then [] else [Load])"
    using nl by (auto simp: load_part_def)
  have "fst (script eng cb l n (pre @ Call r # post))"
    using ok sp unfolding assms(2) by simp
  then obtain rest where
    "fst (snd (script eng cb l n (pre @ Call r # post))) = returned (ops_of pre) @ (r, True) # rest"
    using assms(3) script_read_prefix by blast
  then have "fst (snd (steps_part eng cb ss w)) = returned (ops_of pre) @ (r, True) # rest"
    using sp unfolding assms(2) by simp
  then show ?thesis
    by (simp add: drive_ops lp)
qed

lemma drive_movie:
  assumes ok: "fst (drive eng cb ss nm w) = Inr b"
    and ss: "ss = pre @ Call (ReadFile name) # post" and quiet: "quiet_ops pre = []"
    and reads: "\<forall>op\<in>set (ops_of pre). \<not> is_read op"
  shows "read_back (new_ops w (snd (drive eng cb ss nm w))) fs = fold effect (ops_of pre) fs name"
proof -
  let ?L = "if ffmpegLoaded w then [] else [Load]"
  obtain rest where tr: "new_ops w (snd (drive eng cb ss nm w))
           = returned (?L @ ops_of pre) @ (ReadFile name, True) # rest"
    using drive_read_prefix [OF ok ss quiet] by blast
  have "\<forall>op\<in>set (?L @ ops_of pre). \<not> is_read op"
    using reads by simp
  then have "read_back (returned (?L @ ops_of pre) @ (ReadFile name, True) # rest) fs
               = fold effect (?L @ ops_of pre) fs name"
    by (rule read_back_returned)
  then show ?thesis
    by (simp add: tr)
qed

lemma drive_decodable:
  assumes "fst (drive eng cb ss nm w) = Inr b"
  shows "Throw \<notin> set ss"
proof -
  have "drive eng cb ss nm w = (Inr b, snd (drive eng cb ss nm w))"
    using assms by (simp add: prod_eq_iff)
  then show ?thesis
    using drive_success by blast
qed

lemma simple_movie_success:
  assumes "fst (exportVideoSimple eng config cb w) = Inr b"
  shows "simple_movie eng config cb w fs =
           Some (Movie (clip_list config 0 (sortedFrames config)
                        @ final_clip config (cursor 0 (sortedFrames config))))"
proof -
  have ne: "frames config \<noteq> []"
    using assms by (auto simp: exportVideoSimple_def)
  note d = exportVideoSimple_drive [OF ne, of eng cb w]
  have ok: "fst (drive eng cb (simple_steps config) (out_name config) w) = Inr b"
    using assms by (simp add: d)
  then have "Throw \<notin> set (simple_steps config)"
    by (rule drive_decodable)
  then have dec: "decodable config"
    by (simp add: simple_steps_throw)
  obtain pre post where pre:
    "simple_steps config = pre @ Call (ReadFile (out_name config)) # post"
    "quiet_ops pre = []" "\<forall>op\<in>set (ops_of pre). \<not> is_read op"
    "\<forall>fs. fold effect (ops_of pre) fs (out_name config) =
            Some (Movie (clip_list config 0 (sortedFrames config)
                         @ final_clip config (cursor 0 (sortedFrames config))))"
    using simple_steps_movie [of config] dec by blast
  have "read_back (new_ops w (snd (drive eng cb (simple_steps config) (out_name config) w))) fs
          = fold effect (ops_of pre) fs (out_name config)"
    using ok pre(1,2,3) by (rule drive_movie)
  then show ?thesis
    using assms pre(4) by (simp add: simple_movie_def d case_prod_beta)
qed

lemma frames_movie_success:
  assumes "fst (exportVideoWithFrames eng config cb w) = Inr b"
  shows "frames_movie eng config cb w fs =
           Some (Movie (clip_list config 0 (sortedFrames config)
                        @ [SourceClip (videoUrl config) (cursor 0 (sortedFrames config)) None]))"
proof -
  have ne: "frames config \<noteq> []"
    using assms by (auto simp: exportVideoWithFrames_def)
  note d = exportVideoWithFrames_drive [OF ne, of eng cb w]
  have ok: "fst (drive eng cb (frames_steps config) (out_name config) w) = Inr b"
    using assms by (simp add: d)
  then have "Throw \<notin> set (frames_steps config)"
    by (rule drive_decodable)
  then have dec: "decodable config"
    by (simp add: frames_steps_throw)
  obtain pre post where pre:
    "frames_steps config = pre @ Call (ReadFile (out_name config)) # post"
    "quiet_ops pre = []" "\<forall>op\<in>set (ops_of pre). \<not> is_read op"
    "\<forall>fs. fold effect (ops_of pre) fs (out_name config) =
            Some (Movie (clip_list config 0 (sortedFrames config)
                         @ [SourceClip (videoUrl config) (cursor 0 (sortedFrames config)) None]))"
    using frames_steps_movie [of config] dec by blast
  have "read_back (new_ops w (snd (drive eng cb (frames_steps config) (out_name config) w))) fs
          = fold effect (ops_of pre) fs (out_name config)"
    using ok pre(1,2,3) by (rule drive_movie)
  then show ?thesis
    using assms pre(4) by (simp add: frames_movie_def d case_prod_beta)
qed

subsection \<open>Clips and segments\<close>

lemma clip_list_plain: "map plain (clip_list config l frs) = cut_list config l frs"
  by (induction frs arbitrary: l) (simp_all add: still_of_def)

lemma final_clip_plain:
  "map plain (final_clip config l) = concat (map segment_of (final_segment config l))"
  by (auto simp: final_clip_def final_segment_def js_not_def split: option.splits)

lemma clip_list_stills:
  "filter is_still (clip_list config l frs) = map (still_of config) frs"
  by (induction frs arbitrary: l) (simp_all add: still_of_def)

lemma final_clip_no_still: "filter is_still (final_clip config l) = []"
  by (simp add: final_clip_def)

lemma clip_list_append:
  "clip_list config l (xs @ ys) = clip_list config l xs @ clip_list config (cursor l xs) ys"
  by (induction xs arbitrary: l) (simp_all add: cursor_def)

lemma clip_list_pair:
  assumes "timestamp f = timestamp g"
  shows "\<exists>A B. clip_list config l (xs @ f # g # ys) =
            A @ [still_of config f, still_of config g] @ B
          \<and> length (filter is_still A) = length xs"
proof -
  let ?pre = "if timestamp f > cursor l xs
              then [SourceClip (videoUrl config) (cursor l xs) (Some (timestamp f))] else []"
  have "clip_list config l (xs @ f # g # ys) =
          (clip_list config l xs @ ?pre)
          @ [still_of config f, still_of config g]
          @ clip_list config (timestamp g) ys"
    using assms by (simp add: clip_list_append)
  moreover have "length (filter is_still (clip_list config l xs @ ?pre)) = length xs"
    by (simp add: clip_list_stills)
  ultimately show ?thesis by blast
qed

lemma clip_list_head:
  assumes "frs \<noteq> []" and "timestamp (hd frs) \<le> l"
  shows "hd (clip_list config l frs @ rest) = still_of config (hd frs)"
  using assms by (cases frs) simp_all

subsection \<open>Both exports\<close>

lemma export_not_rejected:
  assumes "frames config \<noteq> []"
  shows "fst (exportVideoSimple eng config cb w) \<noteq> Inl NoFrames"
    and "fst (exportVideoWithFrames eng config cb w) \<noteq> Inl NoFrames"
  using assms
  by (simp_all add: exportVideoSimple_drive exportVideoWithFrames_drive drive_not_rejected)

lemma export_success:
  assumes "\<forall>n. \<not> throws (eng n)" and "frames config \<noteq> []" and "decodable config"
  shows "fst (exportVideoSimple eng config cb w) = Inr (Blob (out_name config))"
    and "new_ops w (snd (exportVideoSimple eng config cb w))
           = returned ((if ffmpegLoaded w then [] else [Load]) @ ops_of (simple_steps config))"
    and "fst (exportVideoWithFrames eng config cb w) = Inr (Blob (out_name config))"
    and "new_ops w (snd (exportVideoWithFrames eng config cb w))
           = returned ((if ffmpegLoaded w then [] else [Load]) @ ops_of (frames_steps config))"
proof -
  have s: "Throw \<notin> set (simple_steps config)" and f: "Throw \<notin> set (frames_steps config)"
    using assms(3) by (simp_all add: simple_steps_throw frames_steps_throw)
  show "fst (exportVideoSimple eng config cb w) = Inr (Blob (out_name config))"
    and "new_ops w (snd (exportVideoSimple eng config cb w))
           = returned ((if ffmpegLoaded w then [] else [Load]) @ ops_of (simple_steps config))"
    unfolding exportVideoSimple_drive [OF assms(2)]
    using drive_never_throws [OF assms(1) s] by blast+
  show "fst (exportVideoWithFrames eng config cb w) = Inr (Blob (out_name config))"
    and "new_ops w (snd (exportVideoWithFrames eng config cb w))
           = returned ((if ffmpegLoaded w then [] else [Load]) @ ops_of (frames_steps config))"
    unfolding exportVideoWithFrames_drive [OF assms(2)]
    using drive_never_throws [OF assms(1) f] by blast+
qed

lemma export_input_staged:
  assumes "\<forall>n. \<not> throws (eng n)" and "frames config \<noteq> []"
  shows "(WriteFile ''input.mp4'' (VideoData (videoUrl config)), True)
           \<in> set (new_ops w (snd (exportVideoSimple eng config cb w)))"
    and "(WriteFile ''input.mp4'' (VideoData (videoUrl config)), True)
           \<in> set (new_ops w (snd (exportVideoWithFrames eng config cb w)))"
proof -
  obtain ss where "simple_steps config =
     Report 15 # Call (FetchFile (videoUrl config))
       # Call (WriteFile ''input.mp4'' (VideoData (videoUrl config))) # ss"
    using simple_steps_first by blast
  with assms(1) show "(WriteFile ''input.mp4'' (VideoData (videoUrl config)), True)
           \<in> set (new_ops w (snd (exportVideoSimple eng config cb w)))"
    unfolding exportVideoSimple_drive [OF assms(2)] by (rule drive_first_calls)
  obtain ss where "frames_steps config =
     Report 10 # Call (FetchFile (videoUrl config))
       # Call (WriteFile ''input.mp4'' (VideoData (videoUrl config))) # ss"
    using frames_steps_first by blast
  with assms(1) show "(WriteFile ''input.mp4'' (VideoData (videoUrl config)), True)
           \<in> set (new_ops w (snd (exportVideoWithFrames eng config cb w)))"
    unfolding exportVideoWithFrames_drive [OF assms(2)] by (rule drive_first_calls)
qed

lemma export_undecodable:
  assumes "\<not> decodable config"
  shows "fst (exportVideoSimple eng config cb w) \<noteq> Inr b"
    and "fst (exportVideoWithFrames eng config cb w) \<noteq> Inr b"
proof -
  show "fst (exportVideoSimple eng config cb w) \<noteq> Inr b"
  proof (cases "frames config = []")
    case True
    then show ?thesis by (simp add: exportVideoSimple_def)
  next
    case False
    show ?thesis
      unfolding exportVideoSimple_drive [OF False]
      using drive_decodable [of eng cb "simple_steps config" "out_name config" w b] assms
      by (auto simp: simple_steps_throw)
  qed
  show "fst (exportVideoWithFrames eng config cb w) \<noteq> Inr b"
  proof (cases "frames config = []")
    case True
    then show ?thesis by (simp add: exportVideoWithFrames_def)
  next
    case False
    show ?thesis
      unfolding exportVideoWithFrames_drive [OF False]
      using drive_decodable [of eng cb "frames_steps config" "out_name config" w b] assms
      by (auto simp: frames_steps_throw)
  qed
qed

text \<open>After a successful run the deletions issued are the files staged; only a deletion
  in its own \<^verbatim>\<open>try\<close> can have thrown.\<close>

lemma drive_balance:
  assumes ok: "drive eng cb ss nm w = (Inr b, w')"
    and q: "\<forall>op\<in>set (quiet_ops ss). is_delete op"
    and bal: "Throw \<notin> set ss \<Longrightarrow>
       mset (attempted (returned (ops_of ss))) = mset (staged (returned (ops_of ss)))"
  shows "mset (attempted (new_ops w w')) = mset (staged (new_ops w w'))"
    and "set (unreleased (new_ops w w')) \<subseteq> set (attempted (returned (quiet_ops ss)))"
proof -
  let ?L = "if ffmpegLoaded w then [] else [Load]"
  obtain ops where ops: "new_ops w w' = returned ?L @ ops" "Throw \<notin> set ss"
    "map fst ops = ops_of ss" "\<forall>x\<in>set ops. \<not> snd x \<longrightarrow> fst x \<in> set (quiet_ops ss)"
    using drive_success [OF ok] by blast
  have del: "\<forall>x\<in>set ops. \<not> snd x \<longrightarrow> is_delete (fst x)"
    using ops(4) q by blast
  have a: "attempted (new_ops w w') = attempted (returned (ops_of ss))"
    using attempted_map_fst [of ops] by (simp add: ops(1,3))
  have s: "staged (new_ops w w') = staged (returned (ops_of ss))"
    using staged_map_fst [OF del] by (simp add: ops(1,3))
  show "mset (attempted (new_ops w w')) = mset (staged (new_ops w w'))"
    using bal [OF ops(2)] by (simp add: a s)
  have "unreleased (new_ops w w') = unreleased ops"
    by (simp add: ops(1))
  then show "set (unreleased (new_ops w w')) \<subseteq> set (attempted (returned (quiet_ops ss)))"
    using unreleased_subset [OF ops(4)] by simp
qed

lemma exportVideoSimple_balance:
  assumes "exportVideoSimple eng config cb w = (Inr b, w')"
  shows "mset (attempted (new_ops w w')) = mset (staged (new_ops w w'))"
    and "set (unreleased (new_ops w w')) \<subseteq> set (segments config)"
proof -
  have ne: "frames config \<noteq> []"
    using assms by (auto simp: exportVideoSimple_def)
  have d: "drive eng cb (simple_steps config) (out_name config) w = (Inr b, w')"
    using assms by (simp add: exportVideoSimple_drive [OF ne])
  have q: "\<forall>op\<in>set (quiet_ops (simple_steps config)). is_delete op"
    by (auto simp: simple_steps_quiet)
  have bal: "Throw \<notin> set (simple_steps config) \<Longrightarrow>
       mset (attempted (returned (ops_of (simple_steps config))))
         = mset (staged (returned (ops_of (simple_steps config))))"
    by (simp add: simple_steps_throw simple_steps_balanced)
  show "mset (attempted (new_ops w w')) = mset (staged (new_ops w w'))"
    using d q bal by (rule drive_balance(1))
  have "set (unreleased (new_ops w w'))
          \<subseteq> set (attempted (returned (quiet_ops (simple_steps config))))"
    using d q bal by (rule drive_balance(2))
  then show "set (unreleased (new_ops w w')) \<subseteq> set (segments config)"
    by (simp add: simple_steps_quiet attempted_deletes)
qed

lemma exportVideoWithFrames_balance:
  assumes "exportVideoWithFrames eng config cb w = (Inr b, w')"
  shows "mset (attempted (new_ops w w')) = mset (staged (new_ops w w'))"
    and "unreleased (new_ops w w') = []"
proof -
  have ne: "frames config \<noteq> []"
    using assms by (auto simp: exportVideoWithFrames_def)
  have d: "drive eng cb (frames_steps config) (out_name config) w = (Inr b, w')"
    using assms by (simp add: exportVideoWithFrames_drive [OF ne])
  have q: "\<forall>op\<in>set (quiet_ops (frames_steps config)). is_delete op"
    by (simp add: frames_steps_quiet)
  have bal: "Throw \<notin> set (frames_steps config) \<Longrightarrow>
       mset (attempted (returned (ops_of (frames_steps config))))
         = mset (staged (returned (ops_of (frames_steps config))))"
    by (simp add: frames_steps_throw frames_steps_balanced)
  show "mset (attempted (new_ops w w')) = mset (staged (new_ops w w'))"
    using d q bal by (rule drive_balance(1))
  have "set (unreleased (new_ops w w'))
          \<subseteq> set (attempted (returned (quiet_ops (frames_steps config))))"
    using d q bal by (rule drive_balance(2))
  then show "unreleased (new_ops w w') = []"
    by (simp add: frames_steps_quiet)
qed

text \<open>A successful export has logged nothing and has read its output.\<close>

lemma drive_console:
  assumes "fst (drive eng cb ss nm w) = Inr b"
  shows "console (snd (drive eng cb ss nm w)) = console w"
proof (cases "ffmpegLoaded w")
  case True
  with assms show ?thesis
    by (simp add: drive_loaded case_prod_beta split: if_splits)
next
  case False
  show ?thesis
  proof (cases "throws (eng (length (trace w)))")
    case True
    with assms False show ?thesis by (simp add: drive_load_failed)
  next
    case nt: False
    with assms False show ?thesis
      by (simp add: drive_load_ok case_prod_beta split: if_splits)
  qed
qed

lemma export_console:
  "exportVideoSimple eng config cb w = (Inr b, w') \<Longrightarrow> console w' = console w"
  "exportVideoWithFrames eng config cb w = (Inr b, w') \<Longrightarrow> console w' = console w"
proof -
  assume ok: "exportVideoSimple eng config cb w = (Inr b, w')"
  then have ne: "frames config \<noteq> []"
    by (auto simp: exportVideoSimple_def)
  from ok have "fst (drive eng cb (simple_steps config) (out_name config) w) = Inr b"
    and "w' = snd (drive eng cb (simple_steps config) (out_name config) w)"
    by (simp_all add: exportVideoSimple_drive [OF ne])
  then show "console w' = console w"
    by (simp add: drive_console)
next
  assume ok: "exportVideoWithFrames eng config cb w = (Inr b, w')"
  then have ne: "frames config \<noteq> []"
    by (auto simp: exportVideoWithFrames_def)
  from ok have "fst (drive eng cb (frames_steps config) (out_name config) w) = Inr b"
    and "w' = snd (drive eng cb (frames_steps config) (out_name config) w)"
    by (simp_all add: exportVideoWithFrames_drive [OF ne])
  then show "console w' = console w"
    by (simp add: drive_console)
qed

lemma export_read_returned:
  "fst (exportVideoSimple eng config cb w) = Inr b \<Longrightarrow>
     (ReadFile (out_name config), True)
       \<in> set (new_ops w (snd (exportVideoSimple eng config cb w)))"
  "fst (exportVideoWithFrames eng config cb w) = Inr b \<Longrightarrow>
     (ReadFile (out_name config), True)
       \<in> set (new_ops w (snd (exportVideoWithFrames eng config cb w)))"
proof -
  assume ok: "fst (exportVideoSimple eng config cb w) = Inr b"
  then have ne: "frames config \<noteq> []"
    by (auto simp: exportVideoSimple_def)
  obtain pre post where pre:
    "simple_steps config = pre @ Call (ReadFile (out_name config)) # post" "quiet_ops pre = []"
    using simple_steps_read by blast
  from ok have "fst (drive eng cb (simple_steps config) (out_name config) w) = Inr b"
    by (simp add: exportVideoSimple_drive [OF ne])
  from drive_read_prefix [OF this pre]
  show "(ReadFile (out_name config), True)
       \<in> set (new_ops w (snd (exportVideoSimple eng config cb w)))"
    unfolding exportVideoSimple_drive [OF ne] by auto
next
  assume ok: "fst (exportVideoWithFrames eng config cb w) = Inr b"
  then have ne: "frames config \<noteq> []"
    by (auto simp: exportVideoWithFrames_def)
  obtain pre post where pre:
    "frames_steps config = pre @ Call (ReadFile (out_name config)) # post" "quiet_ops pre = []"
    using frames_steps_read by blast
  from ok have "fst (drive eng cb (frames_steps config) (out_name config) w) = Inr b"
    by (simp add: exportVideoWithFrames_drive [OF ne])
  from drive_read_prefix [OF this pre]
  show "(ReadFile (out_name config), True)
       \<in> set (new_ops w (snd (exportVideoWithFrames eng config cb w)))"
    unfolding exportVideoWithFrames_drive [OF ne] by auto
qed

lemma export_no_delete_before_read:
  "(ReadFile (out_name config), True)
       \<notin> set (new_ops w (snd (exportVideoSimple eng config cb w))) \<Longrightarrow>
     attempted (new_ops w (snd (exportVideoSimple eng config cb w))) = []"
  "(ReadFile (out_name config), True)
       \<notin> set (new_ops w (snd (exportVideoWithFrames eng config cb w))) \<Longrightarrow>
     attempted (new_ops w (snd (exportVideoWithFrames eng config cb w))) = []"
proof -
  assume nr: "(ReadFile (out_name config), True)
       \<notin> set (new_ops w (snd (exportVideoSimple eng config cb w)))"
  show "attempted (new_ops w (snd (exportVideoSimple eng config cb w))) = []"
  proof (cases "frames config = []")
    case True
    then show ?thesis by (simp add: exportVideoSimple_def new_ops_def)
  next
    case False
    obtain pre post where pre:
      "simple_steps config = pre @ Call (ReadFile (out_name config)) # post"
      "quiet_ops pre = []" "attempted (returned (ops_of pre)) = []"
      using simple_steps_read by blast
    have "\<not> is_delete (ReadFile (out_name config))" by simp
    with pre show ?thesis
      using nr unfolding exportVideoSimple_drive [OF False]
      by (rule drive_no_delete_before_read)
  qed
next
  assume nr: "(ReadFile (out_name config), True)
       \<notin> set (new_ops w (snd (exportVideoWithFrames eng config cb w)))"
  show "attempted (new_ops w (snd (exportVideoWithFrames eng config cb w))) = []"
  proof (cases "frames config = []")
    case True
    then show ?thesis by (simp add: exportVideoWithFrames_def new_ops_def)
  next
    case False
    obtain pre post where pre:
      "frames_steps config = pre @ Call (ReadFile (out_name config)) # post"
      "quiet_ops pre = []" "attempted (returned (ops_of pre)) = []"
      using frames_steps_read by blast
    have "\<not> is_delete (ReadFile (out_name config))" by simp
    with pre show ?thesis
      using nr unfolding exportVideoWithFrames_drive [OF False]
      by (rule drive_no_delete_before_read)
  qed
qed

subsection \<open>C1: the example of the specification\<close>






subsection \<open>C2: release of staged files\<close>

text \<open>
  C2 (as amended). When an export succeeds, it has issued \<^verbatim>\<open>deleteFile\<close> exactly once for
  every file it staged in the engine (the input video, the images, the segment outputs,
  the concat list, the final output): the deletions issued during the call are, as a
  multiset, the files staged during the call. In \<^verbatim>\<open>exportVideoWithFrames\<close> every one of
  them has returned. In \<^verbatim>\<open>exportVideoSimple\<close> the deletion of a segment output may have
  thrown: the error is swallowed, the export still succeeds, and that segment file is
  left in the engine; every other deletion has returned. A successful export has
  logged nothing. No \<^verbatim>\<open>deleteFile\<close> is issued unless the read of the final output has
  returned: an export that stops earlier, or whose read throws, fails and has released
  nothing. All of this holds for every engine and every starting state.
\<close>

theorem C2_release_of_staged_files:
  "(exportVideoSimple eng config onProgress w = (Inr b, w') \<longrightarrow>
      mset (attempted (new_ops w w')) = mset (staged (new_ops w w')) \<and>
      mset (released (new_ops w w')) + mset (unreleased (new_ops w w'))
        = mset (staged (new_ops w w')) \<and>
      set (unreleased (new_ops w w')) \<subseteq> set (segments config) \<and>
      console w' = console w) \<and>
   (exportVideoWithFrames eng config onProgress w = (Inr b, w') \<longrightarrow>
      mset (released (new_ops w w')) = mset (staged (new_ops w w')) \<and>
      unreleased (new_ops w w') = [] \<and>
      console w' = console w) \<and>
   ((ReadFile (out_name config), True)
        \<notin> set (new_ops w (snd (exportVideoSimple eng config onProgress w))) \<longrightarrow>
      attempted (new_ops w (snd (exportVideoSimple eng config onProgress w))) = [] \<and>
      (\<forall>b. fst (exportVideoSimple eng config onProgress w) \<noteq> Inr b)) \<and>
   ((ReadFile (out_name config), True)
        \<notin> set (new_ops w (snd (exportVideoWithFrames eng config onProgress w))) \<longrightarrow>
      attempted (new_ops w (snd (exportVideoWithFrames eng config onProgress w))) = [] \<and>
      (\<forall>b. fst (exportVideoWithFrames eng config onProgress w) \<noteq> Inr b))"
proof (intro conjI impI allI)
  assume ok: "exportVideoSimple eng config onProgress w = (Inr b, w')"
  show a: "mset (attempted (new_ops w w')) = mset (staged (new_ops w w'))"
    using ok by (rule exportVideoSimple_balance(1))
  show "mset (released (new_ops w w')) + mset (unreleased (new_ops w w'))
        = mset (staged (new_ops w w'))"
    using a attempted_split [of "new_ops w w'"] by simp
  show "set (unreleased (new_ops w w')) \<subseteq> set (segments config)"
    using ok by (rule exportVideoSimple_balance(2))
  show "console w' = console w"
    using ok by (rule export_console(1))
next
  assume ok: "exportVideoWithFrames eng config onProgress w = (Inr b, w')"
  show u: "unreleased (new_ops w w') = []"
    using ok by (rule exportVideoWithFrames_balance(2))
  show "mset (released (new_ops w w')) = mset (staged (new_ops w w'))"
    using exportVideoWithFrames_balance(1) [OF ok] attempted_split [of "new_ops w w'"] u
    by simp
  show "console w' = console w"
    using ok by (rule export_console(2))
next
  assume "(ReadFile (out_name config), True)
        \<notin> set (new_ops w (snd (exportVideoSimple eng config onProgress w)))"
  then show "attempted (new_ops w (snd (exportVideoSimple eng config onProgress w))) = []"
    by (rule export_no_delete_before_read(1))
next
  fix b'
  assume "(ReadFile (out_name config), True)
        \<notin> set (new_ops w (snd (exportVideoSimple eng config onProgress w)))"
  then show "fst (exportVideoSimple eng config onProgress w) \<noteq> Inr b'"
    using export_read_returned(1) by blast
next
  assume "(ReadFile (out_name config), True)
        \<notin> set (new_ops w (snd (exportVideoWithFrames eng config onProgress w)))"
  then show "attempted (new_ops w (snd (exportVideoWithFrames eng config onProgress w))) = []"
    by (rule export_no_delete_before_read(2))
next
  fix b'
  assume "(ReadFile (out_name config), True)
        \<notin> set (new_ops w (snd (exportVideoWithFrames eng config onProgress w)))"
  then show "fst (exportVideoWithFrames eng config onProgress w) \<noteq> Inr b'"
    using export_read_returned(2) by blast
qed

text \<open>
  On a quiet engine the export of one frame succeeds and every file it staged is
  deleted. When the deletion of \<^verbatim>\<open>seg_img0.mp4\<close> throws (call 13 of \<^verbatim>\<open>exportVideoSimple\<close>)
  the export succeeds all the same and that file stays. When the probe throws (call 3,
  or call 4 of \<^verbatim>\<open>exportVideoWithFrames\<close>) or the read of the output throws (call 9), no
  deletion is issued.
\<close>

theorem C2_release_of_staged_files_witness:
  "exportVideoSimple quiet_engine single_config (Some 0) fresh_world =
     (Inr (Blob ''itgen_video.mp4''),
      snd (exportVideoSimple quiet_engine single_config (Some 0) fresh_world)) \<and>
   released (new_ops fresh_world
      (snd (exportVideoSimple quiet_engine single_config (Some 0) fresh_world)))
     = [''input.mp4'', ''concat.txt'', ''img_0.jpg'', ''seg_img0.mp4'', ''seg_final.mp4'',
        ''itgen_video.mp4''] \<and>
   mset (released (new_ops fresh_world
      (snd (exportVideoSimple quiet_engine single_config (Some 0) fresh_world))))
     = mset (staged (new_ops fresh_world
      (snd (exportVideoSimple quiet_engine single_config (Some 0) fresh_world)))) \<and>
   exportVideoSimple (throw_at 13) single_config (Some 0) fresh_world =
     (Inr (Blob ''itgen_video.mp4''),
      snd (exportVideoSimple (throw_at 13) single_config (Some 0) fresh_world)) \<and>
   unreleased (new_ops fresh_world
      (snd (exportVideoSimple (throw_at 13) single_config (Some 0) fresh_world)))
     = [''seg_img0.mp4''] \<and>
   released (new_ops fresh_world
      (snd (exportVideoSimple (throw_at 13) single_config (Some 0) fresh_world)))
     = [''input.mp4'', ''concat.txt'', ''img_0.jpg'', ''seg_final.mp4'', ''itgen_video.mp4''] \<and>
   mset (staged (new_ops fresh_world
      (snd (exportVideoSimple (throw_at 13) single_config (Some 0) fresh_world))))
     = mset [''input.mp4'', ''concat.txt'', ''img_0.jpg'', ''seg_final.mp4'',
             ''itgen_video.mp4''] + mset [''seg_img0.mp4''] \<and>
   exportVideoWithFrames quiet_engine single_config (Some 0) fresh_world =
     (Inr (Blob ''itgen_video.mp4''),
      snd (exportVideoWithFrames quiet_engine single_config (Some 0) fresh_world)) \<and>
   mset (released (new_ops fresh_world
      (snd (exportVideoWithFrames quiet_engine single_config (Some 0) fresh_world))))
     = mset (staged (new_ops fresh_world
      (snd (exportVideoWithFrames quiet_engine single_config (Some 0) fresh_world)))) \<and>
   (ReadFile (out_name single_config), True)
     \<notin> set (new_ops fresh_world
          (snd (exportVideoSimple (throw_at 3) single_config (Some 0) fresh_world))) \<and>
   attempted (new_ops fresh_world
      (snd (exportVideoSimple (throw_at 3) single_config (Some 0) fresh_world))) = [] \<and>
   (ReadFile (out_name single_config), True)
     \<notin> set (new_ops fresh_world
          (snd (exportVideoSimple (throw_at 9) single_config (Some 0) fresh_world))) \<and>
   attempted (new_ops fresh_world
      (snd (exportVideoSimple (throw_at 9) single_config (Some 0) fresh_world))) = [] \<and>
   (ReadFile (out_name single_config), True)
     \<notin> set (new_ops fresh_world
          (snd (exportVideoWithFrames (throw_at 4) single_config (Some 0) fresh_world))) \<and>
   attempted (new_ops fresh_world
      (snd (exportVideoWithFrames (throw_at 4) single_config (Some 0) fresh_world))) = []"
proof -
  let ?s = "exportVideoSimple quiet_engine single_config (Some 0) fresh_world"
  let ?f = "exportVideoWithFrames quiet_engine single_config (Some 0) fresh_world"
  let ?s13 = "exportVideoSimple (throw_at 13) single_config (Some 0) fresh_world"
  let ?s3 = "exportVideoSimple (throw_at 3) single_config (Some 0) fresh_world"
  let ?s9 = "exportVideoSimple (throw_at 9) single_config (Some 0) fresh_world"
  let ?f4 = "exportVideoWithFrames (throw_at 4) single_config (Some 0) fresh_world"
  have s: "?s = (Inr (Blob ''itgen_video.mp4''), snd ?s)"
    by (simp add: export_simps concrete_configs single_simple_steps)
  have f: "?f = (Inr (Blob ''itgen_video.mp4''), snd ?f)"
    by (simp add: export_simps concrete_configs single_frames_steps)
  have s13: "?s13 = (Inr (Blob ''itgen_video.mp4''), snd ?s13)"
    by (simp add: export_simps concrete_configs single_simple_steps)
  have r: "released (new_ops fresh_world (snd ?s))
     = [''input.mp4'', ''concat.txt'', ''img_0.jpg'', ''seg_img0.mp4'', ''seg_final.mp4'',
        ''itgen_video.mp4'']"
    by (simp add: export_simps concrete_configs single_simple_steps new_ops_def)
  have u13: "unreleased (new_ops fresh_world (snd ?s13)) = [''seg_img0.mp4'']"
    by (simp add: export_simps concrete_configs single_simple_steps new_ops_def)
  have r13: "released (new_ops fresh_world (snd ?s13))
     = [''input.mp4'', ''concat.txt'', ''img_0.jpg'', ''seg_final.mp4'', ''itgen_video.mp4'']"
    by (simp add: export_simps concrete_configs single_simple_steps new_ops_def)
  have s3: "(ReadFile (out_name single_config), True) \<notin> set (new_ops fresh_world (snd ?s3))"
    by (simp add: export_simps concrete_configs single_simple_steps new_ops_def)
  have s9: "(ReadFile (out_name single_config), True) \<notin> set (new_ops fresh_world (snd ?s9))"
    by (simp add: export_simps concrete_configs single_simple_steps new_ops_def)
  have f4: "(ReadFile (out_name single_config), True) \<notin> set (new_ops fresh_world (snd ?f4))"
    by (simp add: export_simps concrete_configs single_frames_steps new_ops_def)
  from C2_release_of_staged_files [where eng = quiet_engine and config = single_config
      and onProgress = "Some 0" and w = fresh_world and b = "Blob ''itgen_video.mp4''"
      and w' = "snd ?s"] s
  have "mset (released (new_ops fresh_world (snd ?s))) + mset (unreleased (new_ops fresh_world (snd ?s)))
     = mset (staged (new_ops fresh_world (snd ?s)))"
    by blast
  moreover have "unreleased (new_ops fresh_world (snd ?s)) = []"
    by (simp add: export_simps concrete_configs single_simple_steps new_ops_def)
  ultimately have ms: "mset (released (new_ops fresh_world (snd ?s)))
     = mset (staged (new_ops fresh_world (snd ?s)))"
    by simp
  from C2_release_of_staged_files [where eng = "throw_at 13" and config = single_config
      and onProgress = "Some 0" and w = fresh_world and b = "Blob ''itgen_video.mp4''"
      and w' = "snd ?s13"] s13
  have "mset (released (new_ops fresh_world (snd ?s13)))
          + mset (unreleased (new_ops fresh_world (snd ?s13)))
     = mset (staged (new_ops fresh_world (snd ?s13)))"
    by blast
  then have ms13: "mset (staged (new_ops fresh_world (snd ?s13)))
     = mset [''input.mp4'', ''concat.txt'', ''img_0.jpg'', ''seg_final.mp4'',
             ''itgen_video.mp4''] + mset [''seg_img0.mp4'']"
    by (simp only: u13 r13)
  from C2_release_of_staged_files [where eng = quiet_engine and config = single_config
      and onProgress = "Some 0" and w = fresh_world and b = "Blob ''itgen_video.mp4''"
      and w' = "snd ?f"] f
  have mf: "mset (released (new_ops fresh_world (snd ?f)))
     = mset (staged (new_ops fresh_world (snd ?f)))"
    by blast
  from C2_release_of_staged_files [where eng = "throw_at 3" and config = single_config
      and onProgress = "Some 0" and w = fresh_world] s3
  have a3: "attempted (new_ops fresh_world (snd ?s3)) = []"
    by blast
  from C2_release_of_staged_files [where eng = "throw_at 9" and config = single_config
      and onProgress = "Some 0" and w = fresh_world] s9
  have a9: "attempted (new_ops fresh_world (snd ?s9)) = []"
    by blast
  from C2_release_of_staged_files [where eng = "throw_at 4" and config = single_config
      and onProgress = "Some 0" and w = fresh_world] f4
  have a4: "attempted (new_ops fresh_world (snd ?f4)) = []"
    by blast
  show ?thesis
    using s r ms s13 u13 r13 ms13 f mf s3 a3 s9 a9 f4 a4 by blast
qed

text \<open>
  The claim as stated fails on the failure path. When the probe throws (call 3 of
  \<^verbatim>\<open>exportVideoSimple\<close>, call 4 of \<^verbatim>\<open>exportVideoWithFrames\<close>) the export throws with the
  input (and the image) staged and nothing deleted: the \<^verbatim>\<open>catch\<close> block logs and
  rethrows. When the deletion of \<^verbatim>\<open>input.mp4\<close> throws (call 10), after the output has
  been read, the export throws as well: a release error changes the outcome.
\<close>

theorem C2_failure_counterexample:
  "fst (exportVideoSimple (throw_at 3) single_config (Some 0) fresh_world) = Inl ExportFailed \<and>
   trace (snd (exportVideoSimple (throw_at 3) single_config (Some 0) fresh_world))
     = [(Load, True),
        (FetchFile ''blob:video'', True),
        (WriteFile ''input.mp4'' (VideoData ''blob:video''), True),
        (Exec Probe, False)] \<and>
   fst (exportVideoWithFrames (throw_at 4) single_config (Some 0) fresh_world) = Inl ExportFailed \<and>
   trace (snd (exportVideoWithFrames (throw_at 4) single_config (Some 0) fresh_world))
     = [(Load, True),
        (FetchFile ''blob:video'', True),
        (WriteFile ''input.mp4'' (VideoData ''blob:video''), True),
        (WriteFile ''frame_0.jpg'' (ImageBytes ''AAAA''), True),
        (Exec Probe, False)] \<and>
   fst (exportVideoSimple (throw_at 10) single_config (Some 0) fresh_world) = Inl ExportFailed \<and>
   trace (snd (exportVideoSimple (throw_at 10) single_config (Some 0) fresh_world))
     = [(Load, True),
        (FetchFile ''blob:video'', True),
        (WriteFile ''input.mp4'' (VideoData ''blob:video''), True),
        (Exec Probe, True),
        (WriteFile ''img_0.jpg'' (ImageBytes ''AAAA''), True),
        (Exec (ImageSegment ''img_0.jpg'' 2 1280 720 ''seg_img0.mp4''), True),
        (Exec (FinalSegment 0 None ''seg_final.mp4''), True),
        (WriteFile ''concat.txt'' (ConcatList [''seg_img0.mp4'', ''seg_final.mp4'']), True),
        (Exec (ConcatCmd ''concat.txt'' ''itgen_video.mp4''), True),
        (ReadFile ''itgen_video.mp4'', True),
        (DeleteFile ''input.mp4'', False)]"
  by (simp add: export_simps concrete_configs single_simple_steps single_frames_steps)

subsection \<open>C3: events at or beyond the end of the source\<close>

text \<open>
  C3 (as amended). No event is dropped, whatever its timestamp: in both exports the
  InsertSegments of the cut list are exactly the input events in sorted order, one each
  (an event at or beyond the known source duration included), and sorting keeps every
  event.
\<close>

theorem C3_no_event_dropped:
  "filter is_insert (simple_edl config) =
     map (\<lambda>f. InsertSegment (frameDuration config f) (targetWidth config) (targetHeight config))
       (sortedFrames config) \<and>
   filter is_insert (frames_edl config) =
     map (\<lambda>f. InsertSegment (frameDuration config f) (targetWidth config) (targetHeight config))
       (sortedFrames config) \<and>
   mset (sortedFrames config) = mset (frames config)"
  by (simp add: simple_edl_eq frames_edl_eq cut_list_inserts final_segment_no_insert
      sortedFrames_def)

text \<open>
  The claim as stated fails: with a source of 10 s, an event at 12 s is kept. It adds
  Source(3,12) and its own InsertSegment, and the cut list differs from the one built
  without it.
\<close>

theorem C3_late_event_counterexample:
  "timestamp late_frame \<ge> the (videoDuration late_config) \<and>
   simple_edl late_config =
     [SourceSegment 0 (Some 3), InsertSegment 2 1280 720,
      SourceSegment 3 (Some 12), InsertSegment 2 1280 720] \<and>
   simple_edl (late_config\<lparr>frames := [early_frame]\<rparr>) =
     [SourceSegment 0 (Some 3), InsertSegment 2 1280 720, SourceSegment 3 (Some 10)] \<and>
   simple_edl late_config \<noteq> simple_edl (late_config\<lparr>frames := [early_frame]\<rparr>)"
  by (simp add: simple_edl_eq late_config_def base_config_def early_frame_def late_frame_def
      config_simps)

subsection \<open>C4: progress reported to the callback\<close>

text \<open>
  C4 (as amended). The percentages an export itself reports (0, then 0 and 10 while the
  engine loads, then its stage milestones) are non-decreasing within one call, for every
  engine and on every exit path; and when the export succeeds with a callback, the last
  value delivered is exactly 100.
\<close>

theorem C4_stage_progress_monotone:
  "sorted (stage_percents (new_delivered w (snd (exportVideoSimple eng config onProgress w)))) \<and>
   sorted (stage_percents (new_delivered w (snd (exportVideoWithFrames eng config onProgress w)))) \<and>
   (\<forall>b. fst (exportVideoSimple eng config (Some c) w) = Inr b \<longrightarrow>
      last (delivered (snd (exportVideoSimple eng config (Some c) w))) = (c, Stage, 100)) \<and>
   (\<forall>b. fst (exportVideoWithFrames eng config (Some c) w) = Inr b \<longrightarrow>
      last (delivered (snd (exportVideoWithFrames eng config (Some c) w))) = (c, Stage, 100))"
proof (cases "frames config = []")
  case True
  then show ?thesis
    by (simp add: exportVideoSimple_def exportVideoWithFrames_def new_delivered_def)
next
  case False
  have s: "sorted (reports (simple_steps config))" "\<forall>x\<in>set (reports (simple_steps config)). 10 \<le> x"
    by (simp_all add: simple_steps_reports)
  have f: "sorted (reports (frames_steps config))" "\<forall>x\<in>set (reports (frames_steps config)). 10 \<le> x"
    by (simp_all add: frames_steps_reports)
  show ?thesis
    unfolding exportVideoSimple_drive [OF False] exportVideoWithFrames_drive [OF False]
    using driver_progress [OF s simple_steps_last, where w = w and eng = eng and cb = onProgress
        and nm = "out_name config" and c = c]
      driver_progress [OF f frames_steps_last, where w = w and eng = eng and cb = onProgress
        and nm = "out_name config" and c = c]
    by blast
qed

text \<open>On a quiet engine the export succeeds and its last report is 100.\<close>

theorem C4_stage_progress_monotone_witness:
  "fst (exportVideoSimple quiet_engine single_config (Some 0) fresh_world)
     = Inr (Blob ''itgen_video.mp4'') \<and>
   last (delivered (snd (exportVideoSimple quiet_engine single_config (Some 0) fresh_world)))
     = (0, Stage, 100) \<and>
   fst (exportVideoWithFrames quiet_engine single_config (Some 0) fresh_world)
     = Inr (Blob ''itgen_video.mp4'') \<and>
   last (delivered (snd (exportVideoWithFrames quiet_engine single_config (Some 0) fresh_world)))
     = (0, Stage, 100) \<and>
   stage_percents (new_delivered fresh_world
      (snd (exportVideoSimple quiet_engine single_config (Some 0) fresh_world)))
     = [0, 0, 10, 15, 25, 30, 40, 70, 90, 100]"
proof -
  let ?s = "exportVideoSimple quiet_engine single_config (Some 0) fresh_world"
  let ?f = "exportVideoWithFrames quiet_engine single_config (Some 0) fresh_world"
  have s: "fst ?s = Inr (Blob ''itgen_video.mp4'')"
    by (simp add: export_simps concrete_configs single_simple_steps)
  have f: "fst ?f = Inr (Blob ''itgen_video.mp4'')"
    by (simp add: export_simps concrete_configs single_frames_steps)
  have p: "stage_percents (new_delivered fresh_world (snd ?s))
     = [0, 0, 10, 15, 25, 30, 40, 70, 90, 100]"
    by (simp add: export_simps concrete_configs single_simple_steps new_delivered_def
        stage_percents_def)
  show ?thesis
    using s f p
      C4_stage_progress_monotone [of fresh_world quiet_engine single_config "Some 0" 0]
    by blast
qed


text \<open>
  The claim as stated fails: the handler installed by \<^verbatim>\<open>initFFmpeg\<close> forwards the
  engine's own progress of the running command, unscaled, to the same callback. When the
  engine reports one half during the probe, the callback sees 25, then 50, then 30.
\<close>

theorem C4_engine_progress_counterexample:
  "fst (exportVideoSimple (emit_at 3 [1 / 2]) single_config (Some 0) fresh_world)
     = Inr (Blob ''itgen_video.mp4'') \<and>
   percents_to 0 (new_delivered fresh_world
      (snd (exportVideoSimple (emit_at 3 [1 / 2]) single_config (Some 0) fresh_world)))
     = [0, 0, 10, 15, 25, 50, 30, 40, 70, 90, 100] \<and>
   \<not> sorted (percents_to 0 (new_delivered fresh_world
      (snd (exportVideoSimple (emit_at 3 [1 / 2]) single_config (Some 0) fresh_world))))"
  by (simp add: export_simps concrete_configs single_simple_steps new_delivered_def
      percents_to_def)


subsection \<open>C5: target size of an inserted still\<close>

text \<open>
  C5 (as amended). Every InsertSegment, in both exports, has the same target size: the
  width and height of the source video when given and not 0, otherwise 1280 by 720. The
  event's own width and height are not consulted.
\<close>

theorem C5_target_size:
  "map size_of (filter is_insert (simple_edl config)) =
     replicate (length (frames config))
       (js_or (videoWidth config) 1280, js_or (videoHeight config) 720) \<and>
   map size_of (filter is_insert (frames_edl config)) =
     replicate (length (frames config))
       (js_or (videoWidth config) 1280, js_or (videoHeight config) 720)"
  by (simp add: simple_edl_eq frames_edl_eq cut_list_inserts final_segment_no_insert
      sortedFrames_def targetWidth_def targetHeight_def comp_def map_replicate_const)

text \<open>
  The claim as stated fails: an event that carries its own size 640 by 360, on a source
  of 1920 by 1080, is inserted at 1920 by 1080.
\<close>

theorem C5_event_size_counterexample:
  "simple_edl sized_config = [InsertSegment 2 1920 1080, SourceSegment 0 None] \<and>
   frames_edl sized_config = [InsertSegment 2 1920 1080, SourceSegment 0 None] \<and>
   InsertSegment 2 (spec_targetWidth sized_config sized_frame)
       (spec_targetHeight sized_config sized_frame) = InsertSegment 2 640 360"
  by (simp add: simple_edl_eq frames_edl_eq sized_config_def base_config_def sized_frame_def
      config_simps spec_targetWidth_def spec_targetHeight_def)

subsection \<open>C6: the trailing segment\<close>

text \<open>
  C6. The claim asks that no trailing SourceSegment be emitted when the cursor is at the
  known end of the source. \<^verbatim>\<open>exportVideoSimple\<close> does so (\<open>simple_trailing_iff\<close>).
  \<^verbatim>\<open>exportVideoWithFrames\<close> never reads \<^verbatim>\<open>videoDuration\<close> and always emits the trailing
  trim: for a source known to last 10 s and one event at 10 s its filter graph ends
  with \<^verbatim>\<open>trim=start=10\<close>, an empty cut, where \<^verbatim>\<open>exportVideoSimple\<close> emits none.
\<close>

theorem C6_trailing_segment_at_end:
  "videoDuration end_config = Some 10 \<and>
   simple_edl end_config = [SourceSegment 0 (Some 10), InsertSegment 2 1280 720] \<and>
   frames_edl end_config =
     [SourceSegment 0 (Some 10), InsertSegment 2 1280 720, SourceSegment 10 None] \<and>
   concatInputs end_config = [SrcL 0, ImgL 0, FinalL] \<and>
   filterParts end_config =
     [VTrim 0 (Some 10) (SrcL 0), ATrim 0 (Some 10) (SrcL 0),
      Scale 0 1280 720, Silence 0 2, Loop 0 60 2,
      VTrim 10 None FinalL, ATrim 10 None FinalL,
      ConcatF [SrcL 0, ImgL 0, FinalL] 3]"
  by (simp add: simple_edl_eq frames_edl_eq end_config_def base_config_def end_frame_def
      config_simps concatInputs_def filterParts_def)

subsection \<open>C7: stable order, ties, an event at 0\<close>

lemma tie_facts:
  "sortedFrames tie_config = [tie_a, tie_b]"
  "frames tie_config = [tie_a, tie_b]"
  "decodable tie_config"
  "still_of tie_config tie_a = StillClip ''AAAA'' 2 1280 720"
  "still_of tie_config tie_b = StillClip ''AAAB'' 1 1280 720"
  "videoUrl tie_config = ''blob:video''"
  "out_name tie_config = ''itgen_video.mp4''"
  "final_clip tie_config 0 = [SourceClip ''blob:video'' 0 None]"
  by (simp_all add: tie_config_def base_config_def tie_a_def tie_b_def config_simps
      decodable_def still_of_def final_clip_def decodes_examples)

text \<open>
  C7. The events are sorted by ascending timestamp and the sort is stable: events with
  the same timestamp keep their input order. In the movie that a successful export
  returns, the stills are exactly the decoded images of the events in sorted order, each
  held for its own duration: the \<open>i\<close>-th still is the image of the \<open>i\<close>-th sorted event,
  read from the file written for it. Two events that are neighbours after sorting and
  share a timestamp give two stills next to each other, the earlier in the input first,
  with no cut of the source between them. If some event is at timestamp 0, the movie
  starts with a still, not with a cut of the source. The segments these clips play are
  the cut list of the loop, for which the same holds. All of this holds for both
  exports, for every engine and whatever the engine held before.
\<close>

theorem C7_stable_order_and_ties:
  "sorted (map timestamp (sortedFrames config)) \<and>
   (\<forall>t. filter (\<lambda>f. timestamp f = t) (sortedFrames config)
        = filter (\<lambda>f. timestamp f = t) (frames config)) \<and>
   (fst (exportVideoSimple eng config cb w) = Inr b \<longrightarrow>
      (\<exists>cs. simple_movie eng config cb w fs = Some (Movie cs) \<and>
         map plain cs = simple_edl config \<and>
         filter is_still cs = map (still_of config) (sortedFrames config) \<and>
         (\<forall>xs f g ys. sortedFrames config = xs @ f # g # ys \<and> timestamp f = timestamp g \<longrightarrow>
            (\<exists>A B. cs = A @ [still_of config f, still_of config g] @ B \<and>
               length (filter is_still A) = length xs)) \<and>
         ((\<exists>f \<in> set (frames config). timestamp f = 0) \<longrightarrow>
            hd cs = still_of config (hd (sortedFrames config))))) \<and>
   (fst (exportVideoWithFrames eng config cb w) = Inr b \<longrightarrow>
      (\<exists>cs. frames_movie eng config cb w fs = Some (Movie cs) \<and>
         map plain cs = frames_edl config \<and>
         filter is_still cs = map (still_of config) (sortedFrames config) \<and>
         (\<forall>xs f g ys. sortedFrames config = xs @ f # g # ys \<and> timestamp f = timestamp g \<longrightarrow>
            (\<exists>A B. cs = A @ [still_of config f, still_of config g] @ B \<and>
               length (filter is_still A) = length xs)) \<and>
         ((\<exists>f \<in> set (frames config). timestamp f = 0) \<longrightarrow>
            hd cs = still_of config (hd (sortedFrames config))))) \<and>
   filter is_insert (simple_edl config) =
     map (\<lambda>f. InsertSegment (frameDuration config f) (targetWidth config) (targetHeight config))
       (sortedFrames config) \<and>
   (\<forall>xs f g ys. sortedFrames config = xs @ f # g # ys \<and> timestamp f = timestamp g \<longrightarrow>
      (\<exists>A B. simple_edl config =
           A @ [InsertSegment (frameDuration config f) (targetWidth config) (targetHeight config),
                InsertSegment (frameDuration config g) (targetWidth config) (targetHeight config)]
             @ B
         \<and> length (filter is_insert A) = length xs) \<and>
      (\<exists>A B. frames_edl config =
           A @ [InsertSegment (frameDuration config f) (targetWidth config) (targetHeight config),
                InsertSegment (frameDuration config g) (targetWidth config) (targetHeight config)]
             @ B
         \<and> length (filter is_insert A) = length xs)) \<and>
   ((\<exists>f \<in> set (frames config). timestamp f = 0) \<longrightarrow>
      hd (simple_edl config) =
        InsertSegment (frameDuration config (hd (sortedFrames config)))
          (targetWidth config) (targetHeight config) \<and>
      hd (frames_edl config) =
        InsertSegment (frameDuration config (hd (sortedFrames config)))
          (targetWidth config) (targetHeight config))"
proof -
  let ?sorted = "sortedFrames config"
  let ?body = "clip_list config 0 ?sorted"
  have pair: "\<exists>A B. ?body @ rest = A @ [still_of config f, still_of config g] @ B \<and>
               length (filter is_still A) = length xs"
    if "?sorted = xs @ f # g # ys \<and> timestamp f = timestamp g" for xs f g ys rest
  proof -
    from that have eq: "?sorted = xs @ f # g # ys" and t: "timestamp f = timestamp g"
      by simp_all
    from clip_list_pair [OF t, of config 0 xs ys]
    obtain A B where "clip_list config 0 (xs @ f # g # ys)
        = A @ [still_of config f, still_of config g] @ B"
      "length (filter is_still A) = length xs"
      by blast
    then have "?body @ rest = A @ [still_of config f, still_of config g] @ (B @ rest)"
      "length (filter is_still A) = length xs"
      by (simp_all add: eq)
    then show ?thesis by blast
  qed
  have first: "hd (?body @ rest) = still_of config (hd ?sorted)"
    if "\<exists>f \<in> set (frames config). timestamp f = 0" for rest
  proof -
    from that obtain f where "f \<in> set (frames config)" "timestamp f = 0" by blast
    then have "?sorted \<noteq> []" and "timestamp (hd ?sorted) \<le> 0"
      using sortedFrames_head_le [of f config] by simp_all
    then show ?thesis by (rule clip_list_head)
  qed
  have shape: "filter is_still (?body @ rest) = map (still_of config) ?sorted \<and>
         (\<forall>xs f g ys. ?sorted = xs @ f # g # ys \<and> timestamp f = timestamp g \<longrightarrow>
            (\<exists>A B. ?body @ rest = A @ [still_of config f, still_of config g] @ B \<and>
               length (filter is_still A) = length xs)) \<and>
         ((\<exists>f \<in> set (frames config). timestamp f = 0) \<longrightarrow>
            hd (?body @ rest) = still_of config (hd ?sorted))"
    if "filter is_still rest = []" for rest
  proof (intro conjI allI impI)
    show "filter is_still (?body @ rest) = map (still_of config) ?sorted"
      using that by (simp add: clip_list_stills)
  next
    fix xs f g ys
    assume "?sorted = xs @ f # g # ys \<and> timestamp f = timestamp g"
    then show "\<exists>A B. ?body @ rest = A @ [still_of config f, still_of config g] @ B \<and>
               length (filter is_still A) = length xs"
      by (rule pair)
  next
    assume "\<exists>f \<in> set (frames config). timestamp f = 0"
    then show "hd (?body @ rest) = still_of config (hd ?sorted)"
      by (rule first)
  qed
  have c1: "sorted (map timestamp ?sorted)"
    by (rule sortedFrames_sorted)
  have c2: "\<forall>t. filter (\<lambda>f. timestamp f = t) ?sorted = filter (\<lambda>f. timestamp f = t) (frames config)"
    by (simp add: sortedFrames_stable)
  have c3: "fst (exportVideoSimple eng config cb w) = Inr b \<longrightarrow>
      (\<exists>cs. simple_movie eng config cb w fs = Some (Movie cs) \<and>
         map plain cs = simple_edl config \<and>
         filter is_still cs = map (still_of config) ?sorted \<and>
         (\<forall>xs f g ys. ?sorted = xs @ f # g # ys \<and> timestamp f = timestamp g \<longrightarrow>
            (\<exists>A B. cs = A @ [still_of config f, still_of config g] @ B \<and>
               length (filter is_still A) = length xs)) \<and>
         ((\<exists>f \<in> set (frames config). timestamp f = 0) \<longrightarrow>
            hd cs = still_of config (hd ?sorted)))"
  proof
    assume ok: "fst (exportVideoSimple eng config cb w) = Inr b"
    let ?cs = "?body @ final_clip config (cursor 0 ?sorted)"
    have m: "simple_movie eng config cb w fs = Some (Movie ?cs)"
      using ok by (rule simple_movie_success)
    have p: "map plain ?cs = simple_edl config"
      by (simp add: simple_edl_eq clip_list_plain final_clip_plain)
    have "filter is_still (final_clip config (cursor 0 ?sorted)) = []"
      by (rule final_clip_no_still)
    then have sh: "filter is_still ?cs = map (still_of config) ?sorted \<and>
         (\<forall>xs f g ys. ?sorted = xs @ f # g # ys \<and> timestamp f = timestamp g \<longrightarrow>
            (\<exists>A B. ?cs = A @ [still_of config f, still_of config g] @ B \<and>
               length (filter is_still A) = length xs)) \<and>
         ((\<exists>f \<in> set (frames config). timestamp f = 0) \<longrightarrow>
            hd ?cs = still_of config (hd ?sorted))"
      by (rule shape)
    show "\<exists>cs. simple_movie eng config cb w fs = Some (Movie cs) \<and>
         map plain cs = simple_edl config \<and>
         filter is_still cs = map (still_of config) ?sorted \<and>
         (\<forall>xs f g ys. ?sorted = xs @ f # g # ys \<and> timestamp f = timestamp g \<longrightarrow>
            (\<exists>A B. cs = A @ [still_of config f, still_of config g] @ B \<and>
               length (filter is_still A) = length xs)) \<and>
         ((\<exists>f \<in> set (frames config). timestamp f = 0) \<longrightarrow>
            hd cs = still_of config (hd ?sorted))"
      using m p sh by (intro exI [of _ ?cs] conjI) simp_all
  qed
  have c4: "fst (exportVideoWithFrames eng config cb w) = Inr b \<longrightarrow>
      (\<exists>cs. frames_movie eng config cb w fs = Some (Movie cs) \<and>
         map plain cs = frames_edl config \<and>
         filter is_still cs = map (still_of config) ?sorted \<and>
         (\<forall>xs f g ys. ?sorted = xs @ f # g # ys \<and> timestamp f = timestamp g \<longrightarrow>
            (\<exists>A B. cs = A @ [still_of config f, still_of config g] @ B \<and>
               length (filter is_still A) = length xs)) \<and>
         ((\<exists>f \<in> set (frames config). timestamp f = 0) \<longrightarrow>
            hd cs = still_of config (hd ?sorted)))"
  proof
    assume ok: "fst (exportVideoWithFrames eng config cb w) = Inr b"
    let ?cs = "?body @ [SourceClip (videoUrl config) (cursor 0 ?sorted) None]"
    have m: "frames_movie eng config cb w fs = Some (Movie ?cs)"
      using ok by (rule frames_movie_success)
    have p: "map plain ?cs = frames_edl config"
      by (simp add: frames_edl_eq clip_list_plain)
    have "filter is_still [SourceClip (videoUrl config) (cursor 0 ?sorted) None] = []"
      by simp
    then have sh: "filter is_still ?cs = map (still_of config) ?sorted \<and>
         (\<forall>xs f g ys. ?sorted = xs @ f # g # ys \<and> timestamp f = timestamp g \<longrightarrow>
            (\<exists>A B. ?cs = A @ [still_of config f, still_of config g] @ B \<and>
               length (filter is_still A) = length xs)) \<and>
         ((\<exists>f \<in> set (frames config). timestamp f = 0) \<longrightarrow>
            hd ?cs = still_of config (hd ?sorted))"
      by (rule shape)
    show "\<exists>cs. frames_movie eng config cb w fs = Some (Movie cs) \<and>
         map plain cs = frames_edl config \<and>
         filter is_still cs = map (still_of config) ?sorted \<and>
         (\<forall>xs f g ys. ?sorted = xs @ f # g # ys \<and> timestamp f = timestamp g \<longrightarrow>
            (\<exists>A B. cs = A @ [still_of config f, still_of config g] @ B \<and>
               length (filter is_still A) = length xs)) \<and>
         ((\<exists>f \<in> set (frames config). timestamp f = 0) \<longrightarrow>
            hd cs = still_of config (hd ?sorted))"
      using m p sh by (intro exI [of _ ?cs] conjI) simp_all
  qed
  have c5: "filter is_insert (simple_edl config) =
     map (\<lambda>f. InsertSegment (frameDuration config f) (targetWidth config) (targetHeight config))
       ?sorted"
    by (simp add: simple_edl_eq cut_list_inserts final_segment_no_insert)
  have c6: "\<forall>xs f g ys. ?sorted = xs @ f # g # ys \<and> timestamp f = timestamp g \<longrightarrow>
      (\<exists>A B. simple_edl config =
           A @ [InsertSegment (frameDuration config f) (targetWidth config) (targetHeight config),
                InsertSegment (frameDuration config g) (targetWidth config) (targetHeight config)]
             @ B
         \<and> length (filter is_insert A) = length xs) \<and>
      (\<exists>A B. frames_edl config =
           A @ [InsertSegment (frameDuration config f) (targetWidth config) (targetHeight config),
                InsertSegment (frameDuration config g) (targetWidth config) (targetHeight config)]
             @ B
         \<and> length (filter is_insert A) = length xs)"
  proof (intro allI impI)
    fix xs f g ys
    assume h: "?sorted = xs @ f # g # ys \<and> timestamp f = timestamp g"
    from cut_list_pair [of f g config 0 xs ys] h
    obtain A B where AB:
      "cut_list config 0 ?sorted =
         A @ [InsertSegment (frameDuration config f) (targetWidth config) (targetHeight config),
              InsertSegment (frameDuration config g) (targetWidth config) (targetHeight config)]
           @ B"
      "length (filter is_insert A) = length xs"
      by auto
    have "\<exists>A B. simple_edl config =
           A @ [InsertSegment (frameDuration config f) (targetWidth config) (targetHeight config),
                InsertSegment (frameDuration config g) (targetWidth config) (targetHeight config)]
             @ B
         \<and> length (filter is_insert A) = length xs"
      using AB by (simp add: simple_edl_eq) blast
    moreover have "\<exists>A B. frames_edl config =
           A @ [InsertSegment (frameDuration config f) (targetWidth config) (targetHeight config),
                InsertSegment (frameDuration config g) (targetWidth config) (targetHeight config)]
             @ B
         \<and> length (filter is_insert A) = length xs"
      using AB by (simp add: frames_edl_eq) blast
    ultimately show "(\<exists>A B. simple_edl config =
           A @ [InsertSegment (frameDuration config f) (targetWidth config) (targetHeight config),
                InsertSegment (frameDuration config g) (targetWidth config) (targetHeight config)]
             @ B
         \<and> length (filter is_insert A) = length xs) \<and>
      (\<exists>A B. frames_edl config =
           A @ [InsertSegment (frameDuration config f) (targetWidth config) (targetHeight config),
                InsertSegment (frameDuration config g) (targetWidth config) (targetHeight config)]
             @ B
         \<and> length (filter is_insert A) = length xs)"
      by (rule conjI)
  qed
  have c7: "(\<exists>f \<in> set (frames config). timestamp f = 0) \<longrightarrow>
      hd (simple_edl config) =
        InsertSegment (frameDuration config (hd ?sorted)) (targetWidth config) (targetHeight config) \<and>
      hd (frames_edl config) =
        InsertSegment (frameDuration config (hd ?sorted)) (targetWidth config) (targetHeight config)"
  proof
    assume "\<exists>f \<in> set (frames config). timestamp f = 0"
    then obtain f where "f \<in> set (frames config)" "timestamp f = 0" by blast
    then have ne: "?sorted \<noteq> []" and le: "timestamp (hd ?sorted) \<le> 0"
      using sortedFrames_head_le [of f config] by simp_all
    have "hd (simple_edl config) =
        InsertSegment (frameDuration config (hd ?sorted)) (targetWidth config) (targetHeight config)"
      unfolding simple_edl_eq by (rule cut_list_head [OF ne le])
    moreover have "hd (frames_edl config) =
        InsertSegment (frameDuration config (hd ?sorted)) (targetWidth config) (targetHeight config)"
      unfolding frames_edl_eq by (rule cut_list_head [OF ne le])
    ultimately show "hd (simple_edl config) =
        InsertSegment (frameDuration config (hd ?sorted)) (targetWidth config) (targetHeight config) \<and>
      hd (frames_edl config) =
        InsertSegment (frameDuration config (hd ?sorted)) (targetWidth config) (targetHeight config)"
      by (rule conjI)
  qed
  from c1 c2 c3 c4 c5 c6 c7 show ?thesis
    by (intro conjI)
qed

text \<open>Two events at timestamp 0 with different images: both stills lead the movie, in
  input order, in both exports.\<close>

theorem C7_stable_order_and_ties_witness:
  "sortedFrames tie_config = [] @ tie_a # tie_b # [] \<and> timestamp tie_a = timestamp tie_b \<and>
   tie_a \<in> set (frames tie_config) \<and> timestamp tie_a = 0 \<and>
   fst (exportVideoSimple quiet_engine tie_config None fresh_world)
     = Inr (Blob ''itgen_video.mp4'') \<and>
   fst (exportVideoWithFrames quiet_engine tie_config None fresh_world)
     = Inr (Blob ''itgen_video.mp4'') \<and>
   simple_movie quiet_engine tie_config None fresh_world (\<lambda>name. None) =
     Some (Movie [StillClip ''AAAA'' 2 1280 720, StillClip ''AAAB'' 1 1280 720,
                  SourceClip ''blob:video'' 0 None]) \<and>
   (\<exists>cs A B. simple_movie quiet_engine tie_config None fresh_world (\<lambda>name. None)
                = Some (Movie cs) \<and>
      filter is_still cs = [StillClip ''AAAA'' 2 1280 720, StillClip ''AAAB'' 1 1280 720] \<and>
      cs = A @ [StillClip ''AAAA'' 2 1280 720, StillClip ''AAAB'' 1 1280 720] @ B \<and>
      length (filter is_still A) = 0 \<and>
      hd cs = StillClip ''AAAA'' 2 1280 720) \<and>
   (\<exists>cs A B. frames_movie quiet_engine tie_config None fresh_world (\<lambda>name. None)
                = Some (Movie cs) \<and>
      filter is_still cs = [StillClip ''AAAA'' 2 1280 720, StillClip ''AAAB'' 1 1280 720] \<and>
      cs = A @ [StillClip ''AAAA'' 2 1280 720, StillClip ''AAAB'' 1 1280 720] @ B \<and>
      length (filter is_still A) = 0 \<and>
      hd cs = StillClip ''AAAA'' 2 1280 720)"
proof -
  let ?b = "Blob ''itgen_video.mp4''"
  let ?fs = "\<lambda>name::string. None::content option"
  let ?a = "StillClip ''AAAA'' 2 1280 720"
  let ?c = "StillClip ''AAAB'' 1 1280 720"
  have s: "sortedFrames tie_config = [] @ tie_a # tie_b # []"
    by (simp add: tie_facts)
  have t: "timestamp tie_a = timestamp tie_b"
    by (simp add: tie_a_def tie_b_def)
  have m: "tie_a \<in> set (frames tie_config)"
    by (simp add: tie_facts)
  have z0: "timestamp tie_a = 0"
    by (simp add: tie_a_def)
  from m z0 have z: "\<exists>f \<in> set (frames tie_config). timestamp f = 0"
    by blast
  have q: "\<forall>n. \<not> throws (quiet_engine n)"
    by (simp add: quiet_engine_def)
  have ne: "frames tie_config \<noteq> []"
    by (simp add: tie_facts)
  have oks: "fst (exportVideoSimple quiet_engine tie_config None fresh_world) = Inr ?b"
    using export_success(1) [OF q ne tie_facts(3), of None fresh_world] by (simp add: tie_facts)
  have okf: "fst (exportVideoWithFrames quiet_engine tie_config None fresh_world) = Inr ?b"
    using export_success(3) [OF q ne tie_facts(3), of None fresh_world] by (simp add: tie_facts)
  have c0: "cursor 0 [tie_a, tie_b] = 0"
    by (simp add: cursor_def tie_b_def)
  have "clip_list tie_config 0 [tie_a, tie_b] = [?a, ?c]"
    by (simp add: tie_facts) (simp add: tie_a_def tie_b_def)
  then have movie: "simple_movie quiet_engine tie_config None fresh_world ?fs =
     Some (Movie [?a, ?c, SourceClip ''blob:video'' 0 None])"
    by (simp add: simple_movie_success [OF oks] tie_facts c0)
  note inst = C7_stable_order_and_ties [where config = tie_config and eng = quiet_engine
      and cb = None and w = fresh_world and b = ?b and fs = ?fs]
  note simple_part = inst [THEN conjunct2, THEN conjunct2, THEN conjunct1, THEN mp, OF oks]
  note frames_part = inst [THEN conjunct2, THEN conjunct2, THEN conjunct2, THEN conjunct1,
      THEN mp, OF okf]
  from simple_part obtain cs where cs:
    "simple_movie quiet_engine tie_config None fresh_world ?fs = Some (Movie cs)"
    "filter is_still cs = map (still_of tie_config) (sortedFrames tie_config)"
    "\<forall>xs f g ys. sortedFrames tie_config = xs @ f # g # ys \<and> timestamp f = timestamp g \<longrightarrow>
        (\<exists>A B. cs = A @ [still_of tie_config f, still_of tie_config g] @ B \<and>
           length (filter is_still A) = length xs)"
    "(\<exists>f \<in> set (frames tie_config). timestamp f = 0) \<longrightarrow>
        hd cs = still_of tie_config (hd (sortedFrames tie_config))"
    by (elim exE conjE)
  from cs(3) [rule_format, of "[]" tie_a tie_b "[]"] s t obtain A B where AB:
    "cs = A @ [still_of tie_config tie_a, still_of tie_config tie_b] @ B"
    "length (filter is_still A) = length ([]::InsertFrame list)"
    by blast
  have cs_stills: "filter is_still cs = [?a, ?c]"
    using cs(2) by (simp add: tie_facts)
  have cs_pair: "cs = A @ [?a, ?c] @ B" and cs_len: "length (filter is_still A) = 0"
    using AB by (simp_all add: tie_facts)
  from cs(4) z have "hd cs = still_of tie_config (hd (sortedFrames tie_config))"
    by (rule mp)
  then have cs_hd: "hd cs = ?a"
    by (simp add: tie_facts)
  have simple: "\<exists>cs A B. simple_movie quiet_engine tie_config None fresh_world ?fs
                = Some (Movie cs) \<and>
      filter is_still cs = [?a, ?c] \<and> cs = A @ [?a, ?c] @ B \<and>
      length (filter is_still A) = 0 \<and> hd cs = ?a"
    using cs(1) cs_stills cs_pair cs_len cs_hd by (intro exI conjI)
  from frames_part obtain ds where ds:
    "frames_movie quiet_engine tie_config None fresh_world ?fs = Some (Movie ds)"
    "filter is_still ds = map (still_of tie_config) (sortedFrames tie_config)"
    "\<forall>xs f g ys. sortedFrames tie_config = xs @ f # g # ys \<and> timestamp f = timestamp g \<longrightarrow>
        (\<exists>A B. ds = A @ [still_of tie_config f, still_of tie_config g] @ B \<and>
           length (filter is_still A) = length xs)"
    "(\<exists>f \<in> set (frames tie_config). timestamp f = 0) \<longrightarrow>
        hd ds = still_of tie_config (hd (sortedFrames tie_config))"
    by (elim exE conjE)
  from ds(3) [rule_format, of "[]" tie_a tie_b "[]"] s t obtain C D where CD:
    "ds = C @ [still_of tie_config tie_a, still_of tie_config tie_b] @ D"
    "length (filter is_still C) = length ([]::InsertFrame list)"
    by blast
  have ds_stills: "filter is_still ds = [?a, ?c]"
    using ds(2) by (simp add: tie_facts)
  have ds_pair: "ds = C @ [?a, ?c] @ D" and ds_len: "length (filter is_still C) = 0"
    using CD by (simp_all add: tie_facts)
  from ds(4) z have "hd ds = still_of tie_config (hd (sortedFrames tie_config))"
    by (rule mp)
  then have ds_hd: "hd ds = ?a"
    by (simp add: tie_facts)
  have frames: "\<exists>cs A B. frames_movie quiet_engine tie_config None fresh_world ?fs
                = Some (Movie cs) \<and>
      filter is_still cs = [?a, ?c] \<and> cs = A @ [?a, ?c] @ B \<and>
      length (filter is_still A) = 0 \<and> hd cs = ?a"
    using ds(1) ds_stills ds_pair ds_len ds_hd by (intro exI conjI)
  from s t m z0 oks okf movie simple frames show ?thesis
    by (intro conjI)
qed

subsection \<open>C8: negative timestamps\<close>

lemma url_simple_steps:
  "simple_steps url_config =
     [Report 15,
      Call (FetchFile ''blob:video''),
      Call (WriteFile ''input.mp4'' (VideoData ''blob:video'')),
      Report 25,
      Call (Exec Probe),
      Report 30,
      Throw,
      Report 40,
      Call (Exec (ImageSegment ''img_0.jpg'' 2 1280 720 ''seg_img0.mp4'')),
      Call (Exec (FinalSegment (- 1) (Some 11) ''seg_final.mp4'')),
      Report 70,
      Call (WriteFile ''concat.txt'' (ConcatList [''seg_img0.mp4'', ''seg_final.mp4''])),
      Call (Exec (ConcatCmd ''concat.txt'' ''itgen_video.mp4'')),
      Report 90,
      Call (ReadFile ''itgen_video.mp4''),
      Call (DeleteFile ''input.mp4''),
      Call (DeleteFile ''concat.txt''),
      Call (DeleteFile ''img_0.jpg''),
      Quiet (DeleteFile ''seg_img0.mp4''),
      Quiet (DeleteFile ''seg_final.mp4''),
      Call (DeleteFile ''itgen_video.mp4''),
      Report 100]"
  by (simp add: steps_simps url_config_def url_frame_def data_url_examples)

lemma url_facts:
  "frames url_config = [url_frame]" "out_name url_config = ''itgen_video.mp4''"
  "\<not> decodable url_config" "timestamp url_frame < 0"
  by (simp_all add: url_config_def url_frame_def base_config_def out_name_def default_to_def
      decodable_def data_url_examples)

lemma negative_facts:
  "decodable negative_config" "videoUrl negative_config = ''blob:video''"
  "timestamp negative_frame < 0"
  by (simp_all add: negative_config_def negative_frame_def base_config_def decodable_def
      decodes_examples)

text \<open>
  C8 (as amended). Timestamps are not validated: the empty list is the only input
  rejected before engine I/O. Every non-empty event list, negative timestamps included,
  is not rejected as empty; when no engine call throws, the source video is fetched and
  written into the engine, so engine I/O does take place; and when moreover every
  \<^verbatim>\<open>imageData\<close> decodes, the export succeeds after issuing its whole step list (preceded
  by the load of the engine when it was not loaded yet), every call returning. An
  \<^verbatim>\<open>imageData\<close> that \<^verbatim>\<open>atob\<close> refuses makes the export throw, on every engine, after the
  source video has been staged.
\<close>

theorem C8_negative_timestamp_accepted:
  assumes "frames config \<noteq> []"
  shows "fst (exportVideoSimple eng config onProgress w) \<noteq> Inl NoFrames \<and>
         fst (exportVideoWithFrames eng config onProgress w) \<noteq> Inl NoFrames \<and>
         ((\<forall>n. \<not> throws (eng n)) \<longrightarrow>
            (WriteFile ''input.mp4'' (VideoData (videoUrl config)), True)
              \<in> set (new_ops w (snd (exportVideoSimple eng config onProgress w))) \<and>
            (WriteFile ''input.mp4'' (VideoData (videoUrl config)), True)
              \<in> set (new_ops w (snd (exportVideoWithFrames eng config onProgress w)))) \<and>
         ((\<forall>n. \<not> throws (eng n)) \<and> decodable config \<longrightarrow>
            fst (exportVideoSimple eng config onProgress w) = Inr (Blob (out_name config)) \<and>
            new_ops w (snd (exportVideoSimple eng config onProgress w))
              = returned ((if ffmpegLoaded w then [] else [Load])
                          @ ops_of (simple_steps config)) \<and>
            fst (exportVideoWithFrames eng config onProgress w) = Inr (Blob (out_name config)) \<and>
            new_ops w (snd (exportVideoWithFrames eng config onProgress w))
              = returned ((if ffmpegLoaded w then [] else [Load])
                          @ ops_of (frames_steps config))) \<and>
         (\<not> decodable config \<longrightarrow>
            (\<forall>b. fst (exportVideoSimple eng config onProgress w) \<noteq> Inr b) \<and>
            (\<forall>b. fst (exportVideoWithFrames eng config onProgress w) \<noteq> Inr b))"
proof (intro conjI impI allI)
  show "fst (exportVideoSimple eng config onProgress w) \<noteq> Inl NoFrames"
    using assms by (rule export_not_rejected(1))
  show "fst (exportVideoWithFrames eng config onProgress w) \<noteq> Inl NoFrames"
    using assms by (rule export_not_rejected(2))
next
  assume quiet: "\<forall>n. \<not> throws (eng n)"
  show "(WriteFile ''input.mp4'' (VideoData (videoUrl config)), True)
              \<in> set (new_ops w (snd (exportVideoSimple eng config onProgress w)))"
    using quiet assms by (rule export_input_staged(1))
  show "(WriteFile ''input.mp4'' (VideoData (videoUrl config)), True)
              \<in> set (new_ops w (snd (exportVideoWithFrames eng config onProgress w)))"
    using quiet assms by (rule export_input_staged(2))
next
  assume "(\<forall>n. \<not> throws (eng n)) \<and> decodable config"
  then have quiet: "\<forall>n. \<not> throws (eng n)" and dec: "decodable config"
    by simp_all
  show "fst (exportVideoSimple eng config onProgress w) = Inr (Blob (out_name config))"
    using quiet assms dec by (rule export_success(1))
  show "new_ops w (snd (exportVideoSimple eng config onProgress w))
              = returned ((if ffmpegLoaded w then [] else [Load])
                          @ ops_of (simple_steps config))"
    using quiet assms dec by (rule export_success(2))
  show "fst (exportVideoWithFrames eng config onProgress w) = Inr (Blob (out_name config))"
    using quiet assms dec by (rule export_success(3))
  show "new_ops w (snd (exportVideoWithFrames eng config onProgress w))
              = returned ((if ffmpegLoaded w then [] else [Load])
                          @ ops_of (frames_steps config))"
    using quiet assms dec by (rule export_success(4))
next
  fix b
  assume "\<not> decodable config"
  then show "fst (exportVideoSimple eng config onProgress w) \<noteq> Inr b"
    by (rule export_undecodable(1))
next
  fix b
  assume "\<not> decodable config"
  then show "fst (exportVideoWithFrames eng config onProgress w) \<noteq> Inr b"
    by (rule export_undecodable(2))
qed

text \<open>
  An event at -1 s: on a quiet engine the export succeeds and encodes its still; on an
  engine that fails to load it is still not rejected as empty. An event at -1 s whose
  image is an address instead of base64 text: on a quiet engine the export throws after
  the video has been staged and probed.
\<close>

theorem C8_negative_timestamp_accepted_witness:
  "frames negative_config \<noteq> [] \<and> (\<forall>n. \<not> throws (quiet_engine n)) \<and>
   decodable negative_config \<and>
   timestamp (hd (frames negative_config)) < 0 \<and>
   fst (exportVideoSimple quiet_engine negative_config (Some 0) fresh_world)
     = Inr (Blob ''itgen_video.mp4'') \<and>
   (WriteFile ''input.mp4'' (VideoData ''blob:video''), True)
     \<in> set (new_ops fresh_world
               (snd (exportVideoSimple quiet_engine negative_config (Some 0) fresh_world))) \<and>
   (Exec (ImageSegment ''img_0.jpg'' 2 1280 720 ''seg_img0.mp4''), True)
     \<in> set (new_ops fresh_world
               (snd (exportVideoSimple quiet_engine negative_config (Some 0) fresh_world))) \<and>
   fst (exportVideoSimple (throw_at 0) negative_config (Some 0) fresh_world) \<noteq> Inl NoFrames \<and>
   frames url_config \<noteq> [] \<and> \<not> decodable url_config \<and>
   timestamp (hd (frames url_config)) < 0 \<and>
   fst (exportVideoSimple quiet_engine url_config (Some 0) fresh_world) = Inl ExportFailed \<and>
   fst (exportVideoSimple quiet_engine url_config (Some 0) fresh_world)
     \<noteq> Inr (Blob ''itgen_video.mp4'') \<and>
   new_ops fresh_world (snd (exportVideoSimple quiet_engine url_config (Some 0) fresh_world))
     = [(Load, True),
        (FetchFile ''blob:video'', True),
        (WriteFile ''input.mp4'' (VideoData ''blob:video''), True),
        (Exec Probe, True)]"
proof -
  have h1: "frames negative_config \<noteq> []"
    by (simp add: concrete_configs)
  have h2: "\<forall>n. \<not> throws (quiet_engine n)"
    by (simp add: quiet_engine_def)
  have h3: "timestamp (hd (frames negative_config)) < 0"
    by (simp add: concrete_configs negative_facts)
  have h4: "decodable negative_config"
    by (rule negative_facts)
  have l: "\<not> ffmpegLoaded fresh_world"
    by (simp add: fresh_world_def)
  note inst = C8_negative_timestamp_accepted [OF h1, of quiet_engine "Some 0" fresh_world]
  have staged: "(WriteFile ''input.mp4'' (VideoData ''blob:video''), True)
     \<in> set (new_ops fresh_world
               (snd (exportVideoSimple quiet_engine negative_config (Some 0) fresh_world)))"
    using inst [THEN conjunct2, THEN conjunct2, THEN conjunct1, THEN mp, OF h2]
    by (simp add: negative_facts(2))
  have quiet: "fst (exportVideoSimple quiet_engine negative_config (Some 0) fresh_world)
       = Inr (Blob ''itgen_video.mp4'') \<and>
     (Exec (ImageSegment ''img_0.jpg'' 2 1280 720 ''seg_img0.mp4''), True)
       \<in> set (new_ops fresh_world
               (snd (exportVideoSimple quiet_engine negative_config (Some 0) fresh_world)))"
    using inst h2 h4 by (simp add: concrete_configs l negative_simple_steps)
  have failing:
    "fst (exportVideoSimple (throw_at 0) negative_config (Some 0) fresh_world) \<noteq> Inl NoFrames"
    using C8_negative_timestamp_accepted [OF h1, of "throw_at 0" "Some 0" fresh_world]
    by blast
  have u1: "frames url_config \<noteq> []"
    by (simp add: url_facts)
  have u2: "\<not> decodable url_config"
    by (rule url_facts)
  have u3: "timestamp (hd (frames url_config)) < 0"
    by (simp add: url_facts)
  have u4: "fst (exportVideoSimple quiet_engine url_config (Some 0) fresh_world)
       = Inl ExportFailed"
    by (simp add: export_simps url_facts url_simple_steps)
  have u5: "fst (exportVideoSimple quiet_engine url_config (Some 0) fresh_world)
       \<noteq> Inr (Blob ''itgen_video.mp4'')"
    using C8_negative_timestamp_accepted [OF u1, of quiet_engine "Some 0" fresh_world] u2
    by blast
  have u6: "new_ops fresh_world
       (snd (exportVideoSimple quiet_engine url_config (Some 0) fresh_world))
     = [(Load, True),
        (FetchFile ''blob:video'', True),
        (WriteFile ''input.mp4'' (VideoData ''blob:video''), True),
        (Exec Probe, True)]"
    by (simp add: export_simps url_facts url_simple_steps new_ops_def)
  from h1 h2 h4 h3 quiet staged failing u1 u2 u3 u4 u5 u6 show ?thesis
    by (intro conjI) simp_all
qed

text \<open>
  The claim as stated fails: with one event at -1 s both exports stage the input and the
  image, run the engine and return the output. The still is inserted first and the
  source is then cut from -1 s.
\<close>

theorem C8_negative_timestamp_counterexample:
  "timestamp negative_frame < 0 \<and>
   frames negative_config = [negative_frame] \<and>
   fst (exportVideoSimple quiet_engine negative_config (Some 0) fresh_world)
     = Inr (Blob ''itgen_video.mp4'') \<and>
   trace (snd (exportVideoSimple quiet_engine negative_config (Some 0) fresh_world))
     = returned
       [Load,
        FetchFile ''blob:video'',
        WriteFile ''input.mp4'' (VideoData ''blob:video''),
        Exec Probe,
        WriteFile ''img_0.jpg'' (ImageBytes ''AAAA''),
        Exec (ImageSegment ''img_0.jpg'' 2 1280 720 ''seg_img0.mp4''),
        Exec (FinalSegment (- 1) (Some 11) ''seg_final.mp4''),
        WriteFile ''concat.txt'' (ConcatList [''seg_img0.mp4'', ''seg_final.mp4'']),
        Exec (ConcatCmd ''concat.txt'' ''itgen_video.mp4''),
        ReadFile ''itgen_video.mp4'',
        DeleteFile ''input.mp4'',
        DeleteFile ''concat.txt'',
        DeleteFile ''img_0.jpg'',
        DeleteFile ''seg_img0.mp4'',
        DeleteFile ''seg_final.mp4'',
        DeleteFile ''itgen_video.mp4''] \<and>
   fst (exportVideoWithFrames quiet_engine negative_config (Some 0) fresh_world)
     = Inr (Blob ''itgen_video.mp4'') \<and>
   trace (snd (exportVideoWithFrames quiet_engine negative_config (Some 0) fresh_world))
     = returned
       [Load,
        FetchFile ''blob:video'',
        WriteFile ''input.mp4'' (VideoData ''blob:video''),
        WriteFile ''frame_0.jpg'' (ImageBytes ''AAAA''),
        Exec Probe,
        Exec (FilterComplex [''input.mp4'', ''frame_0.jpg'']
               [Scale 0 1280 720, Silence 0 2, Loop 0 60 2,
                VTrim (- 1) None FinalL, ATrim (- 1) None FinalL,
                ConcatF [ImgL 0, FinalL] 2]
               ''itgen_video.mp4''),
        ReadFile ''itgen_video.mp4'',
        DeleteFile ''input.mp4'',
        DeleteFile ''frame_0.jpg'',
        DeleteFile ''itgen_video.mp4'']"
  by (simp add: export_simps concrete_configs negative_simple_steps negative_frames_steps
      negative_frame_def)

subsection \<open>Empty input\<close>

text \<open>
  C9. For the empty event list both exports throw the "no frames" error before anything
  else happens: the world is unchanged (no engine call, no progress report, nothing
  staged).
\<close>

theorem C9_empty_input_rejected:
  "frames config = [] \<Longrightarrow>
     exportVideoSimple eng config onProgress w = (Inl NoFrames, w) \<and>
     exportVideoWithFrames eng config onProgress w = (Inl NoFrames, w)"
  by (simp add: exportVideoSimple_def exportVideoWithFrames_def)

theorem C9_empty_input_rejected_witness:
  "frames base_config = [] \<and>
   exportVideoSimple quiet_engine base_config (Some 0) fresh_world = (Inl NoFrames, fresh_world) \<and>
   exportVideoWithFrames quiet_engine base_config (Some 0) fresh_world
     = (Inl NoFrames, fresh_world)"
proof -
  have h: "frames base_config = []" by (simp add: base_config_def)
  show ?thesis
    using h C9_empty_input_rejected [OF h, of quiet_engine "Some 0" fresh_world] by simp
qed

subsection \<open>C10: a frame duration of 0\<close>

text \<open>
  C10 (as amended). For a frame whose duration is present and 0, both exports hold the
  still for the configured \<^verbatim>\<open>imageDuration\<close> (2 s when the configuration gives none)
  instead of 0, since \<^verbatim>\<open>frame.duration || imageDuration\<close> tests truthiness. The hold is
  then non-zero unless \<^verbatim>\<open>imageDuration\<close> is itself 0.
\<close>

theorem C10_zero_duration_replaced:
  assumes "frame \<in> set (frames config)" and "duration frame = Some 0"
  shows "frameDuration config frame = default_to (imageDuration config) 2 \<and>
         InsertSegment (default_to (imageDuration config) 2)
             (targetWidth config) (targetHeight config)
           \<in> set (simple_edl config) \<and>
         InsertSegment (default_to (imageDuration config) 2)
             (targetWidth config) (targetHeight config)
           \<in> set (frames_edl config) \<and>
         (imageDuration config \<noteq> Some 0 \<longrightarrow> frameDuration config frame \<noteq> 0)"
proof -
  have d: "frameDuration config frame = default_to (imageDuration config) 2"
    using assms(2) by (simp add: frameDuration_def js_or_def)
  have nz: "imageDuration config \<noteq> Some 0 \<longrightarrow> frameDuration config frame \<noteq> 0"
    unfolding d by (simp add: default_to_def split: option.splits)
  show ?thesis
    using inserts_in_edl [OF assms(1)] d nz by simp
qed

text \<open>A frame with duration 0 and no configured default is held for 2 s.\<close>

theorem C10_zero_duration_replaced_witness:
  "zero_frame \<in> set (frames default_config) \<and> duration zero_frame = Some 0 \<and>
   imageDuration default_config \<noteq> Some 0 \<and>
   frameDuration default_config zero_frame = 2 \<and>
   InsertSegment 2 1280 720 \<in> set (simple_edl default_config) \<and>
   InsertSegment 2 1280 720 \<in> set (frames_edl default_config)"
proof -
  have h1: "zero_frame \<in> set (frames default_config)"
    by (simp add: default_config_def base_config_def)
  have h2: "duration zero_frame = Some 0"
    by (simp add: zero_frame_def)
  show ?thesis
    using h1 h2 C10_zero_duration_replaced [OF h1 h2]
    by (simp add: default_config_def base_config_def config_simps)
qed

text \<open>
  The claim as stated fails in its last part: a hold of length 0 can be requested, by
  passing \<^verbatim>\<open>imageDuration: 0\<close>. The frame's 0 is then replaced by the default 0.
\<close>

theorem C10_zero_hold_counterexample:
  "duration zero_frame = Some 0 \<and>
   simple_edl zero_config = [InsertSegment 0 1280 720, SourceSegment 0 None] \<and>
   frames_edl zero_config = [InsertSegment 0 1280 720, SourceSegment 0 None]"
  by (simp add: simple_edl_eq frames_edl_eq zero_config_def base_config_def zero_frame_def
      config_simps)

end
